theory Spec2Isabelle
  imports Complex_Main "HOL-Library.Sublist" "HOL-Library.Multiset"
begin

section \<open>Python values and library functions used by the search layer\<close>

text \<open>
  The scripts under \<^verbatim>\<open>search-layer/scripts\<close> are Python. Exceptions are values:
  a function that may raise returns \<open>py_error + 'a\<close> (\<open>Inl\<close> the exception).
  Floats are modelled as reals (NaN and the infinities are left out), Python's
  unbounded integers as \<open>int\<close>, and \<open>str\<close> as \<open>string\<close>.
\<close>

datatype py_error =
    TypeError | ValueError | AttributeError | KeyError | IndexError
  | JSONDecodeError | RuntimeError | URLError

text \<open>
  A decoded JSON document, as \<^verbatim>\<open>json.loads\<close> returns it. A \<open>JDict\<close> lists its
  items in insertion order, every key once.
\<close>

datatype json =
    JNull
  | JBool bool
  | JInt int
  | JFloat real
  | JStr string
  | JList "json list"
  | JDict "(string \<times> json) list"

text \<open>\<^verbatim>\<open>str.isspace\<close> on the ASCII range.\<close>

definition is_space :: "char \<Rightarrow> bool" where
  "is_space c = (of_char c \<in> {9, 10, 11, 12, 13, 28, 29, 30, 31, 32 :: nat})"

text \<open>\<^verbatim>\<open>s.rstrip(chars)\<close> and \<^verbatim>\<open>s.strip()\<close>.\<close>

definition rstrip_chars :: "char list \<Rightarrow> string \<Rightarrow> string" where
  "rstrip_chars cs s = rev (dropWhile (\<lambda>c. c \<in> set cs) (rev s))"

definition py_strip :: "string \<Rightarrow> string" where
  "py_strip s = rev (dropWhile is_space (rev (dropWhile is_space s)))"

text \<open>The canonical form of a URL throughout the scripts: \<^verbatim>\<open>url.rstrip("/")\<close>.\<close>

definition canon_url :: "string \<Rightarrow> string" where
  "canon_url u = rstrip_chars ''/'' u"

text \<open>\<^verbatim>\<open>s.startswith(p)\<close> and \<^verbatim>\<open>p in s\<close> for strings.\<close>

definition startswith :: "string \<Rightarrow> string \<Rightarrow> bool" where
  "startswith s p = (take (length p) s = p)"

fun str_contains :: "string \<Rightarrow> string \<Rightarrow> bool" where
  "str_contains [] p = (p = [])"
| "str_contains (c # cs) p = (startswith (c # cs) p \<or> str_contains cs p)"

text \<open>
  The slice \<^verbatim>\<open>xs[:n]\<close> for an integer \<open>n\<close>: a negative \<open>n\<close> counts from the end.
\<close>

definition slice_to :: "int \<Rightarrow> 'a list \<Rightarrow> 'a list" where
  "slice_to n xs = (if 0 \<le> n then take (nat n) xs else take (length xs - nat (- n)) xs)"

text \<open>\<^verbatim>\<open>str(n)\<close> for a natural number.\<close>

fun str_of_nat :: "nat \<Rightarrow> string" where
  "str_of_nat n =
     (if n < 10 then [char_of (48 + n)]
      else str_of_nat (n div 10) @ [char_of (48 + n mod 10)])"

text \<open>
  Dynamic operations on decoded JSON, with the exceptions Python raises:
  \<^verbatim>\<open>for item in v\<close>, \<^verbatim>\<open>key in v\<close>, \<^verbatim>\<open>v[key]\<close> for a string key,
  \<^verbatim>\<open>v.get(key, default)\<close>, hashing (a dict key must be hashable), \<^verbatim>\<open>float(v)\<close> and
  the truth value of \<open>v\<close>.
\<close>

fun py_iter :: "json \<Rightarrow> py_error + json list" where
  "py_iter (JList xs) = Inr xs"
| "py_iter (JDict kvs) = Inr (map (\<lambda>kv. JStr (fst kv)) kvs)"
| "py_iter (JStr s) = Inr (map (\<lambda>c. JStr [c]) s)"
| "py_iter _ = Inl TypeError"

fun py_contains :: "string \<Rightarrow> json \<Rightarrow> py_error + bool" where
  "py_contains k (JDict kvs) = Inr (map_of kvs k \<noteq> None)"
| "py_contains k (JStr s) = Inr (str_contains s k)"
| "py_contains k (JList xs) = Inr (JStr k \<in> set xs)"
| "py_contains k _ = Inl TypeError"

fun py_getitem :: "json \<Rightarrow> string \<Rightarrow> py_error + json" where
  "py_getitem (JDict kvs) k = (case map_of kvs k of None \<Rightarrow> Inl KeyError | Some v \<Rightarrow> Inr v)"
| "py_getitem _ k = Inl TypeError"

fun py_get :: "json \<Rightarrow> string \<Rightarrow> json \<Rightarrow> py_error + json" where
  "py_get (JDict kvs) k d = (case map_of kvs k of None \<Rightarrow> Inr d | Some v \<Rightarrow> Inr v)"
| "py_get _ k d = Inl AttributeError"

fun py_hashable :: "json \<Rightarrow> bool" where
  "py_hashable (JList xs) = False"
| "py_hashable (JDict kvs) = False"
| "py_hashable _ = True"

fun py_truthy :: "json \<Rightarrow> bool" where
  "py_truthy JNull = False"
| "py_truthy (JBool b) = b"
| "py_truthy (JInt n) = (n \<noteq> 0)"
| "py_truthy (JFloat r) = (r \<noteq> 0)"
| "py_truthy (JStr s) = (s \<noteq> [])"
| "py_truthy (JList xs) = (xs \<noteq> [])"
| "py_truthy (JDict kvs) = (kvs \<noteq> [])"

text \<open>
  \<^verbatim>\<open>float(v)\<close>. The conversion of a string is the library's, taken as a parameter
  (\<open>None\<close> where it raises \<^verbatim>\<open>ValueError\<close>). Floats are read as reals: rounding,
  and the \<^verbatim>\<open>OverflowError\<close> of an integer beyond the range of a float, are left out.
\<close>

fun py_float :: "(string \<Rightarrow> real option) \<Rightarrow> json \<Rightarrow> py_error + real" where
  "py_float sf (JFloat r) = Inr r"
| "py_float sf (JInt n) = Inr (real_of_int n)"
| "py_float sf (JBool b) = Inr (if b then 1 else 0)"
| "py_float sf (JStr s) = (case sf s of None \<Rightarrow> Inl ValueError | Some r \<Rightarrow> Inr r)"
| "py_float sf _ = Inl TypeError"

text \<open>
  Whether a dict key equals the integer \<open>i\<close>: Python compares and hashes
  \<^verbatim>\<open>1\<close>, \<^verbatim>\<open>1.0\<close> and \<^verbatim>\<open>True\<close> as the same key.
\<close>

fun key_eq_int :: "int \<Rightarrow> json \<Rightarrow> bool" where
  "key_eq_int i (JInt n) = (n = i)"
| "key_eq_int i (JFloat r) = (r = real_of_int i)"
| "key_eq_int i (JBool b) = ((if b then 1 else 0) = i)"
| "key_eq_int i _ = False"


section \<open>Data model\<close>

text \<open>
  A link of a web page and a candidate of the crawl are the same dict shape
  \<^verbatim>\<open>{"url", "anchor", "context"}\<close> (the field \<open>ctx\<close> is the key \<^verbatim>\<open>"context"\<close>).
  A scored candidate is \<^verbatim>\<open>{**c, "score": ..., "reason": ...}\<close>.
\<close>

record candidate =
  url :: string
  anchor :: string
  ctx :: string

record scored_candidate = candidate +
  score :: real
  reason :: json

text \<open>A reference \<^verbatim>\<open>{"type", "url", "context"}\<close> as \<^verbatim>\<open>extract_refs\<close> builds it.\<close>

record reference =
  ref_type :: string
  ref_url :: string
  ref_ctx :: string

record comment =
  cm_author :: string
  cm_date :: string
  cm_body :: string

text \<open>
  The Thread Document a fetcher returns. A document without the key \<^verbatim>\<open>"links"\<close> (an
  issue or pull request) has \<open>doc_links = []\<close>, which is what
  \<^verbatim>\<open>data.get("links", [])\<close> gives; \<open>doc_error = None\<close> is a document without the key
  \<^verbatim>\<open>"error"\<close>; the state \<^verbatim>\<open>None\<close> of the fetchers without states is the empty string.
\<close>

record document =
  doc_url :: string
  doc_type :: string
  doc_title :: string
  doc_body :: string
  doc_state :: string
  doc_labels :: "string list"
  doc_comments :: "comment list"
  doc_refs :: "reference list"
  doc_links :: "candidate list"
  doc_metadata :: "(string \<times> json) list"
  doc_error :: "string option"

record node =
  node_url :: string
  node_depth :: int
  node_type :: string
  node_title :: string
  node_body :: string
  node_comments :: "comment list"
  node_score :: real
  node_reason :: json


section \<open>The relevance gate (relevance\_gate.py)\<close>

text \<open>
  What \<^verbatim>\<open>_call_llm\<close> does is decided by the network: it raises, or it returns the
  \<^verbatim>\<open>content\<close> of the reply, a string unless the service sent something else
  there. It is an oracle over a world state \<open>'w\<close>, which it may change.
  \<^verbatim>\<open>json.loads\<close> (\<open>None\<close> where it raises \<^verbatim>\<open>JSONDecodeError\<close>) and the string
  case of \<^verbatim>\<open>float\<close> are the library's and parameters too. The credentials only
  reach \<^verbatim>\<open>_call_llm\<close> and are part of the oracle.
\<close>

datatype llm_reply = LLMRaises py_error | LLMReturns json

record 'w gate_env =
  call_llm :: "string \<Rightarrow> 'w \<Rightarrow> llm_reply \<times> 'w"
  json_loads :: "string \<Rightarrow> json option"
  str_to_float :: "string \<Rightarrow> real option"

definition prompt_line :: "nat \<Rightarrow> candidate \<Rightarrow> string" where
  "prompt_line i c =
     str_of_nat i @ ''. anchor='' @ [CHR 0x22]
       @ (if anchor c \<noteq> [] then anchor c else take 60 (ctx c)) @ [CHR 0x22]
       @ '' url='' @ url c @ ''\<newline>   context='' @ [CHR 0x22] @ take 150 (ctx c) @ [CHR 0x22]"

text \<open>\<^verbatim>\<open>sep.join(parts)\<close>.\<close>

fun py_join :: "string \<Rightarrow> string list \<Rightarrow> string" where
  "py_join sep [] = []"
| "py_join sep [l] = l"
| "py_join sep (l # ls) = l @ sep @ py_join sep ls"

definition build_prompt :: "string \<Rightarrow> string \<Rightarrow> candidate list \<Rightarrow> string" where
  "build_prompt query knowledge_state candidates =
     ''You are a research assistant evaluating whether web links are worth following.\<newline>\<newline>''
     @ ''Original query: '' @ query @ ''\<newline>\<newline>''
     @ ''What we already know: ''
     @ (if knowledge_state \<noteq> [] then knowledge_state else ''Nothing yet.'') @ ''\<newline>\<newline>''
     @ ''Candidate links to evaluate:\<newline>''
     @ py_join ''\<newline>'' (map (\<lambda>(i, c). prompt_line (Suc i) c) (enumerate 0 candidates)) @ ''\<newline>\<newline>''
     @ ''For each candidate, score 0.0-1.0 how likely following this link will provide NEW, RELEVANT information to answer the original query.\<newline>''
     @ ''- Score > 0.7: definitely follow (directly relevant, likely new info)\<newline>''
     @ ''- Score 0.4-0.7: maybe follow (somewhat relevant or unclear)\<newline>''
     @ ''- Score < 0.4: skip (irrelevant, duplicate, or noise)\<newline>\<newline>''
     @ ''Respond with ONLY a JSON array, no explanation outside JSON:\<newline>[\<newline>''
     @ ''  {'' @ [CHR 0x22] @ ''id'' @ [CHR 0x22] @ '': 1, '' @ [CHR 0x22] @ ''score'' @ [CHR 0x22]
     @ '': 0.9, '' @ [CHR 0x22] @ ''reason'' @ [CHR 0x22] @ '': '' @ [CHR 0x22] @ ''one sentence''
     @ [CHR 0x22] @ ''},\<newline>''
     @ ''  {'' @ [CHR 0x22] @ ''id'' @ [CHR 0x22] @ '': 2, '' @ [CHR 0x22] @ ''score'' @ [CHR 0x22]
     @ '': 0.2, '' @ [CHR 0x22] @ ''reason'' @ [CHR 0x22] @ '': '' @ [CHR 0x22] @ ''one sentence''
     @ [CHR 0x22] @ ''},\<newline>  ...\<newline>]''"

text \<open>
  Stripping a Markdown code fence: the reply is stripped; if it starts with three
  backticks its first line is dropped, then trailing backticks and whitespace.
\<close>

definition drop_first_line :: "string \<Rightarrow> string" where
  "drop_first_line s = drop 1 (dropWhile (\<lambda>c. c \<noteq> CHR 0x0A) s)"

definition strip_code_fence :: "string \<Rightarrow> string" where
  "strip_code_fence raw =
     (let t = py_strip raw in
      if startswith t ''```'' then py_strip (rstrip_chars ''`'' (drop_first_line t)) else t)"

text \<open>
  \<^verbatim>\<open>score_map = {item["id"]: item for item in scores if "id" in item}\<close>, as the
  list of its assignments in order: a later assignment to an equal key replaces
  the value of an earlier one, so a lookup takes the last entry with an equal key.
\<close>

fun build_score_map :: "json list \<Rightarrow> py_error + (json \<times> json) list" where
  "build_score_map [] = Inr []"
| "build_score_map (item # items) =
     (case py_contains ''id'' item of
        Inl e \<Rightarrow> Inl e
      | Inr False \<Rightarrow> build_score_map items
      | Inr True \<Rightarrow>
          (case py_getitem item ''id'' of
             Inl e \<Rightarrow> Inl e
           | Inr k \<Rightarrow>
               if py_hashable k then
                 (case build_score_map items of
                    Inl e \<Rightarrow> Inl e
                  | Inr m \<Rightarrow> Inr ((k, item) # m))
               else Inl TypeError))"

text \<open>\<^verbatim>\<open>score_map.get(i, {})\<close> for the position \<open>i\<close>.\<close>

definition score_map_get :: "(json \<times> json) list \<Rightarrow> int \<Rightarrow> json" where
  "score_map_get m i =
     (case filter (\<lambda>kv. key_eq_int i (fst kv)) m of
        [] \<Rightarrow> JDict []
      | kvs \<Rightarrow> snd (last kvs))"

definition with_score :: "real \<Rightarrow> json \<Rightarrow> candidate \<Rightarrow> scored_candidate" where
  "with_score sc rs c = \<lparr>url = url c, anchor = anchor c, ctx = ctx c, score = sc, reason = rs\<rparr>"

text \<open>
  The loop \<^verbatim>\<open>for i, c in enumerate(candidates, 1)\<close>; \<open>i\<close> is the position of the
  head of the list.
\<close>

fun merge_scores ::
  "(string \<Rightarrow> real option) \<Rightarrow> (json \<times> json) list \<Rightarrow> real \<Rightarrow> int \<Rightarrow> candidate list
     \<Rightarrow> py_error + scored_candidate list" where
  "merge_scores sf m threshold i [] = Inr []"
| "merge_scores sf m threshold i (c # cs) =
     (let s = score_map_get m i in
      case py_get s ''score'' (JFloat 0.5) of
        Inl e \<Rightarrow> Inl e
      | Inr v \<Rightarrow>
          (case py_float sf v of
             Inl e \<Rightarrow> Inl e
           | Inr sc \<Rightarrow>
               if sc \<ge> threshold then
                 (case py_get s ''reason'' (JStr []) of
                    Inl e \<Rightarrow> Inl e
                  | Inr rs \<Rightarrow>
                      (case merge_scores sf m threshold (i + 1) cs of
                         Inl e \<Rightarrow> Inl e
                       | Inr res \<Rightarrow> Inr (with_score sc rs c # res)))
               else merge_scores sf m threshold (i + 1) cs))"

text \<open>
  \<^verbatim>\<open>result.sort(key=lambda x: x["score"], reverse=True)\<close>: Python's sort is stable,
  also with \<^verbatim>\<open>reverse=True\<close>.
\<close>

definition sort_by_score_desc :: "scored_candidate list \<Rightarrow> scored_candidate list" where
  "sort_by_score_desc res = sort_key (\<lambda>x. - score x) res"

definition fail_open :: "string \<Rightarrow> candidate list \<Rightarrow> scored_candidate list" where
  "fail_open why candidates = map (with_score 0.5 (JStr why)) candidates"

definition parse_and_merge ::
  "('w, 'z) gate_env_scheme \<Rightarrow> string \<Rightarrow> candidate list \<Rightarrow> real
     \<Rightarrow> py_error + scored_candidate list" where
  "parse_and_merge E raw candidates threshold =
     (case json_loads E (strip_code_fence raw) of
        None \<Rightarrow> Inr (fail_open ''parse error'' candidates)
      | Some scores \<Rightarrow>
          (case py_iter scores of
             Inl e \<Rightarrow> Inl e
           | Inr items \<Rightarrow>
               (case build_score_map items of
                  Inl e \<Rightarrow> Inl e
                | Inr m \<Rightarrow>
                    (case merge_scores (str_to_float E) m threshold 1 candidates of
                       Inl e \<Rightarrow> Inl e
                     | Inr res \<Rightarrow> Inr (sort_by_score_desc res)))))"

definition score_candidates ::
  "('w, 'z) gate_env_scheme \<Rightarrow> string \<Rightarrow> candidate list \<Rightarrow> string \<Rightarrow> real \<Rightarrow> 'w
     \<Rightarrow> (py_error + scored_candidate list) \<times> 'w" where
  "score_candidates E query candidates knowledge_state threshold w =
     (if candidates = [] then (Inr [], w)
      else
        (case call_llm E (build_prompt query knowledge_state candidates) w of
           (LLMRaises e, w') \<Rightarrow> (Inr (fail_open ''LLM unavailable'' candidates), w')
         | (LLMReturns (JStr raw), w') \<Rightarrow> (parse_and_merge E raw candidates threshold, w')
         | (LLMReturns _, w') \<Rightarrow> (Inl AttributeError, w')))"


section \<open>The crawl orchestrator (chain\_tracker.py)\<close>

text \<open>
  \<^verbatim>\<open>_update_knowledge\<close>: the prompt is built first; the call and the
  \<^verbatim>\<open>raw.strip()\<close> stand in a \<^verbatim>\<open>try\<close> whose handler catches every exception and
  returns the concatenation.
\<close>

definition knowledge_prompt :: "string \<Rightarrow> node \<Rightarrow> string" where
  "knowledge_prompt knowledge_state nd =
     (let title = node_title nd;
          body = take 500 (node_body nd);
          comments_text = py_join '' '' (map (\<lambda>c. take 100 (cm_body c)) (take 5 (node_comments nd)))
      in ''Current knowledge state: ''
         @ (if knowledge_state \<noteq> [] then knowledge_state else ''Nothing known yet.'')
         @ ''\<newline>\<newline>Just read: '' @ [CHR 0x22] @ title @ [CHR 0x22]
         @ ''\<newline>Content summary: '' @ body @ ''\<newline>''
         @ (if comments_text \<noteq> [] then ''Key comments: '' @ comments_text else [])
         @ ''\<newline>\<newline>Update the knowledge state in 1-2 sentences:\<newline>''
         @ ''- What new facts were learned?\<newline>''
         @ ''- What is still unclear or needs more investigation?\<newline>\<newline>''
         @ ''Respond with ONLY the updated knowledge state text, no preamble.'')"

definition update_knowledge ::
  "('w, 'z) gate_env_scheme \<Rightarrow> string \<Rightarrow> node \<Rightarrow> 'w \<Rightarrow> string \<times> 'w" where
  "update_knowledge E knowledge_state nd w =
     (case call_llm E (knowledge_prompt knowledge_state nd) w of
        (LLMReturns (JStr raw), w') \<Rightarrow> (py_strip raw, w')
      | (_, w') \<Rightarrow>
          (if knowledge_state \<noteq> [] then knowledge_state @ '' Also read: '' @ node_title nd @ ''.''
           else ''Read: '' @ node_title nd @ ''.'', w'))"

text \<open>
  \<^verbatim>\<open>_get_candidates\<close>: two loops over one list \<^verbatim>\<open>candidates\<close> and one set
  \<^verbatim>\<open>seen\<close>, first over the links, then over the refs. A ref has no anchor: its
  type stands there.
\<close>

definition ref_candidate :: "reference \<Rightarrow> candidate" where
  "ref_candidate r = \<lparr>url = ref_url r, anchor = ref_type r, ctx = ref_ctx r\<rparr>"

fun collect :: "candidate list \<Rightarrow> candidate list \<times> string set \<Rightarrow> candidate list \<times> string set" where
  "collect [] acc = acc"
| "collect (c # cs) (candidates, seen) =
     (if url c \<noteq> [] \<and> url c \<notin> seen
      then collect cs (candidates @ [c], insert (url c) seen)
      else collect cs (candidates, seen))"

definition get_candidates :: "document \<Rightarrow> candidate list" where
  "get_candidates data =
     fst (collect (map ref_candidate (doc_refs data)) (collect (doc_links data) ([], {})))"

text \<open>
  The crawl. A queue entry is the tuple \<^verbatim>\<open>(url, depth, score, reason)\<close>. The state
  of the loop of \<^verbatim>\<open>track\<close> is its local variables and the world; \<open>trace\<close> records
  the calls it makes, in order: \<open>EvFetch depth url\<close> for the call of
  \<^verbatim>\<open>fetch_thread_url(url)\<close> (and the line written to stderr before it),
  \<open>EvScore url cs\<close> for the call of \<^verbatim>\<open>score_candidates\<close> with the candidates \<open>cs\<close>
  while the node of \<open>url\<close> is expanded, and \<open>EvEnqueue url es\<close> for the entries
  appended to the queue in that expansion. \<open>failure\<close> is the exception that left
  \<^verbatim>\<open>track\<close>, if one did: only \<^verbatim>\<open>score_candidates\<close> can raise there, the fetch is
  in a \<^verbatim>\<open>try\<close>.
\<close>

type_synonym entry = "string \<times> int \<times> real \<times> json"

datatype event =
    EvFetch int string
  | EvScore string "candidate list"
  | EvEnqueue string "entry list"

record 'w crawl_env = "'w gate_env" +
  fetch_thread_url :: "string \<Rightarrow> 'w \<Rightarrow> (py_error + document) \<times> 'w"

record params =
  query :: string
  max_depth :: int
  threshold :: real
  max_per_level :: int

record 'w crawl =
  queue :: "entry list"
  visited :: "string set"
  nodes :: "node list"
  knowledge :: string
  world :: 'w
  trace :: "event list"
  failure :: "py_error option"

definition make_node :: "string \<Rightarrow> int \<Rightarrow> real \<Rightarrow> json \<Rightarrow> document \<Rightarrow> node" where
  "make_node u depth sc rs data =
     \<lparr>node_url = u, node_depth = depth, node_type = doc_type data, node_title = doc_title data,
      node_body = take 2000 (doc_body data), node_comments = take 10 (doc_comments data),
      node_score = sc, node_reason = rs\<rparr>"

definition entry_of :: "int \<Rightarrow> scored_candidate \<Rightarrow> entry" where
  "entry_of depth c = (url c, depth + 1, score c, reason c)"

text \<open>The loop body from \<^verbatim>\<open>candidates = _get_candidates(data)\<close> on.\<close>

definition expand ::
  "('w, 'z) crawl_env_scheme \<Rightarrow> params \<Rightarrow> string \<Rightarrow> int \<Rightarrow> document \<Rightarrow> 'w crawl \<Rightarrow> 'w crawl" where
  "expand E P u depth data s =
     (let candidates = get_candidates data in
      if candidates = [] then s
      else
        (let candidates = slice_to 20 candidates in
         case score_candidates E (query P) candidates (knowledge s) (threshold P) (world s) of
           (Inl err, w') \<Rightarrow>
             s\<lparr>world := w', trace := trace s @ [EvScore u candidates], failure := Some err\<rparr>
         | (Inr scored, w') \<Rightarrow>
             (let new = map (entry_of depth) (slice_to (max_per_level P) scored)
              in s\<lparr>queue := queue s @ new, world := w',
                    trace := trace s @ [EvScore u candidates, EvEnqueue u new]\<rparr>)))"

text \<open>The loop body after \<^verbatim>\<open>queue.pop(0)\<close>, for the popped entry.\<close>

definition visit ::
  "('w, 'z) crawl_env_scheme \<Rightarrow> params \<Rightarrow> entry \<Rightarrow> 'w crawl \<Rightarrow> 'w crawl" where
  "visit E P e s =
     (case e of (u, depth, sc, rs) \<Rightarrow>
        if canon_url u \<in> visited s \<or> depth > max_depth P then s
        else
          (let s1 = s\<lparr>visited := insert (canon_url u) (visited s),
                       trace := trace s @ [EvFetch depth u]\<rparr>
           in case fetch_thread_url E u (world s1) of
                (Inl err, w1) \<Rightarrow> s1\<lparr>world := w1\<rparr>
              | (Inr data, w1) \<Rightarrow>
                  (let nd = make_node u depth sc rs data;
                       kw = update_knowledge E (knowledge s1) nd w1;
                       s2 = s1\<lparr>nodes := nodes s1 @ [nd], knowledge := fst kw, world := snd kw\<rparr>
                   in if depth \<ge> max_depth P then s2 else expand E P u depth data s2)))"

text \<open>
  The loop \<^verbatim>\<open>while queue\<close> of \<^verbatim>\<open>track\<close>. It ends: an entry deeper than \<open>max_depth\<close>
  is dropped, and every entry an expansion appends is one level deeper than the entry
  it replaces, so the multiset of the levels left to go decreases.
\<close>

definition levels_left :: "params \<Rightarrow> entry \<Rightarrow> nat" where
  "levels_left P e = nat (max_depth P + 1 - fst (snd e))"

function track_loop :: "('w, 'z) crawl_env_scheme \<Rightarrow> params \<Rightarrow> 'w crawl \<Rightarrow> 'w crawl" where
  "track_loop E P s =
     (case queue s of
        [] \<Rightarrow> s
      | e # rest \<Rightarrow>
          (let s' = visit E P e (s\<lparr>queue := rest\<rparr>)
           in if failure s' = None then track_loop E P s' else s'))"
  by pat_completeness auto
termination
proof (relation "inv_image (mult less_than) (\<lambda>(E, P, s). mset (map (levels_left P) (queue s)))")
  show "wf (inv_image (mult less_than) (\<lambda>(E, P, s). mset (map (levels_left P) (queue s))))"
    by (intro wf_inv_image wf_mult wf_less_than)
next
  fix E :: "('w, 'z) crawl_env_scheme" and P s e rest s'
  assume q: "queue s = e # rest" and s': "s' = visit E P e (s\<lparr>queue := rest\<rparr>)"
  obtain u depth sc rs where e: "e = (u, depth, sc, rs)" by (cases e) auto
  have "\<exists>new. queue s' = rest @ new \<and> (\<forall>x \<in> set new. levels_left P x < levels_left P e)"
  proof (cases "canon_url u \<in> visited s \<or> depth > max_depth P \<or> depth \<ge> max_depth P")
    case True
    then have "queue s' = rest @ []"
      unfolding s' e visit_def
      by (auto simp: Let_def split: prod.splits sum.splits)
    then show ?thesis by (metis empty_iff list.set(1))
  next
    case False
    then have lvl: "\<And>c. levels_left P (entry_of depth c) < levels_left P e"
      by (simp add: levels_left_def entry_of_def e)
    have "queue s' = rest \<or> (\<exists>scored. queue s' = rest @ map (entry_of depth) scored)"
      unfolding s' e visit_def expand_def
      by (auto simp: Let_def split: prod.splits sum.splits)
    then show ?thesis
    proof
      assume "queue s' = rest"
      then have "queue s' = rest @ []" by simp
      then show ?thesis by (metis empty_iff list.set(1))
    next
      assume "\<exists>scored. queue s' = rest @ map (entry_of depth) scored"
      then obtain scored where "queue s' = rest @ map (entry_of depth) scored" by blast
      moreover have "\<forall>x \<in> set (map (entry_of depth) scored). levels_left P x < levels_left P e"
        using lvl by auto
      ultimately show ?thesis by blast
    qed
  qed
  then obtain new where new: "queue s' = rest @ new"
    "\<forall>x \<in> set new. levels_left P x < levels_left P e"
    by blast
  have "(mset (map (levels_left P) rest) + mset (map (levels_left P) new),
         mset (map (levels_left P) rest) + {#levels_left P e#}) \<in> mult less_than"
    by (rule one_step_implies_mult) (use new(2) in auto)
  then show "((E, P, s'), (E, P, s))
      \<in> inv_image (mult less_than) (\<lambda>(E, P, s). mset (map (levels_left P) (queue s)))"
    using q new(1) by (simp add: add.commute)
qed

declare track_loop.simps [simp del]

definition initial_crawl :: "string list \<Rightarrow> 'w \<Rightarrow> 'w crawl" where
  "initial_crawl seed_urls w =
     \<lparr>queue = map (\<lambda>u. (u, 0, 1, JStr ''seed'')) seed_urls, visited = {}, nodes = [],
      knowledge = [], world = w, trace = [], failure = None\<rparr>"

text \<open>
  \<open>track_run\<close> is the state in which \<^verbatim>\<open>track\<close> ends, \<open>track\<close> what it returns:
  the result dict, or the exception that left it. The credentials that \<^verbatim>\<open>track\<close>
  loads before its loop only reach the calls of the service; they are part of the
  oracle \<open>call_llm\<close>.
\<close>

definition track_run ::
  "('w, 'z) crawl_env_scheme \<Rightarrow> params \<Rightarrow> string list \<Rightarrow> 'w \<Rightarrow> 'w crawl" where
  "track_run E P seed_urls w = track_loop E P (initial_crawl seed_urls w)"

record crawl_result =
  res_query :: string
  res_knowledge_state :: string
  res_nodes :: "node list"
  res_total_fetched :: nat

definition track ::
  "('w, 'z) crawl_env_scheme \<Rightarrow> params \<Rightarrow> string list \<Rightarrow> 'w \<Rightarrow> py_error + crawl_result" where
  "track E P seed_urls w =
     (let s = track_run E P seed_urls w in
      case failure s of
        Some err \<Rightarrow> Inl err
      | None \<Rightarrow>
          Inr \<lparr>res_query = query P, res_knowledge_state = knowledge s, res_nodes = nodes s,
               res_total_fetched = length (nodes s)\<rparr>)"

section \<open>Regular expressions as \<^verbatim>\<open>re\<close> matches them\<close>

text \<open>
  \<^verbatim>\<open>extract_refs\<close> is nine regular expressions and a dispatch on what matched. The
  expressions are terms of \<open>rx\<close>; \<open>rmatch\<close> gives, for a position, the ends of all
  matches in the order in which the backtracking matcher of \<^verbatim>\<open>re\<close> tries them (an
  alternative's left branch first, a greedy repetition's longer matches first, a lazy
  one's shorter first), so the head of that list is the match \<^verbatim>\<open>re\<close> reports. A
  repetition stops after an iteration that consumed nothing. Characters are bytes:
  \<^verbatim>\<open>\s\<close> and \<^verbatim>\<open>\d\<close> are the ASCII classes. The third component of a state entry
  \<open>(g, s, e)\<close> says that group \<open>g\<close> last matched the span from \<open>s\<close> to \<open>e\<close>.
  The natural number given to \<open>rmatch\<close> bounds the iterations of a repetition; one
  more than the length of the text is never reached.
\<close>

datatype cset = CChar char | CRange char char | CSpace | CDigit

datatype rx =
    Eps
  | Lit string
  | OneOf "cset list"
  | NoneOf "cset list"
  | Seq rx rx
  | Alt rx rx
  | Star rx
  | LazyStar rx
  | Group nat rx
  | Ahead rx
  | NotAhead rx
  | NotBehind nat rx
  | Bol
  | Eol

record re_flags =
  ignorecase :: bool
  multiline :: bool

type_synonym mstate = "nat \<times> (nat \<times> nat \<times> nat) list"

definition swapcase :: "char \<Rightarrow> char" where
  "swapcase c =
     (let n = (of_char c :: nat) in
      if 97 \<le> n \<and> n \<le> 122 then char_of (n - 32)
      else if 65 \<le> n \<and> n \<le> 90 then char_of (n + 32)
      else c)"

fun in_cset :: "char \<Rightarrow> cset \<Rightarrow> bool" where
  "in_cset c (CChar d) = (c = d)"
| "in_cset c (CRange lo hi) = ((of_char lo :: nat) \<le> of_char c \<and> (of_char c :: nat) \<le> of_char hi)"
| "in_cset c CSpace = is_space c"
| "in_cset c CDigit = ((48 :: nat) \<le> of_char c \<and> (of_char c :: nat) \<le> 57)"

definition in_class :: "re_flags \<Rightarrow> cset list \<Rightarrow> char \<Rightarrow> bool" where
  "in_class fl cs c =
     (list_ex (in_cset c) cs \<or> (ignorecase fl \<and> list_ex (in_cset (swapcase c)) cs))"

definition char_eq :: "re_flags \<Rightarrow> char \<Rightarrow> char \<Rightarrow> bool" where
  "char_eq fl a b = (a = b \<or> (ignorecase fl \<and> swapcase a = b))"

definition one_char :: "string \<Rightarrow> (char \<Rightarrow> bool) \<Rightarrow> mstate \<Rightarrow> mstate list" where
  "one_char text ok st =
     (if fst st < length text \<and> ok (text ! fst st) then [(Suc (fst st), snd st)] else [])"

fun lit_at :: "re_flags \<Rightarrow> string \<Rightarrow> string \<Rightarrow> bool" where
  "lit_at fl [] rest = True"
| "lit_at fl (a # as) [] = False"
| "lit_at fl (a # as) (b # bs) = (char_eq fl a b \<and> lit_at fl as bs)"

fun rmatch :: "string \<Rightarrow> re_flags \<Rightarrow> nat \<Rightarrow> rx \<Rightarrow> mstate \<Rightarrow> mstate list" where
  "rmatch text fl n Eps st = [st]"
| "rmatch text fl n (Lit s) st =
     (if lit_at fl s (drop (fst st) text) then [(fst st + length s, snd st)] else [])"
| "rmatch text fl n (OneOf cs) st = one_char text (in_class fl cs) st"
| "rmatch text fl n (NoneOf cs) st = one_char text (\<lambda>c. \<not> in_class fl cs c) st"
| "rmatch text fl n (Seq a b) st = concat (map (\<lambda>st'. rmatch text fl n b st') (rmatch text fl n a st))"
| "rmatch text fl n (Alt a b) st = rmatch text fl n a st @ rmatch text fl n b st"
| "rmatch text fl 0 (Star a) st = [st]"
| "rmatch text fl (Suc n) (Star a) st =
     concat (map (\<lambda>st'. if fst st < fst st' then rmatch text fl n (Star a) st' else [])
                 (rmatch text fl (Suc n) a st)) @ [st]"
| "rmatch text fl 0 (LazyStar a) st = [st]"
| "rmatch text fl (Suc n) (LazyStar a) st =
     st # concat (map (\<lambda>st'. if fst st < fst st' then rmatch text fl n (LazyStar a) st' else [])
                      (rmatch text fl (Suc n) a st))"
| "rmatch text fl n (Group g a) st =
     map (\<lambda>st'. (fst st', (g, fst st, fst st') # snd st')) (rmatch text fl n a st)"
| "rmatch text fl n (Ahead a) st = (if rmatch text fl n a st \<noteq> [] then [st] else [])"
| "rmatch text fl n (NotAhead a) st = (if rmatch text fl n a st = [] then [st] else [])"
| "rmatch text fl n (NotBehind w a) st =
     (if w \<le> fst st \<and> list_ex (\<lambda>st'. fst st' = fst st) (rmatch text fl n a (fst st - w, snd st))
      then [] else [st])"
| "rmatch text fl n Bol st =
     (if fst st = 0 \<or> (multiline fl \<and> fst st \<le> length text \<and> text ! (fst st - 1) = CHR 0x0A)
      then [st] else [])"
| "rmatch text fl n Eol st =
     (if fst st = length text
         \<or> (fst st < length text \<and> text ! fst st = CHR 0x0A
             \<and> (multiline fl \<or> Suc (fst st) = length text))
      then [st] else [])"

text \<open>
  A match object; \<^verbatim>\<open>re.finditer\<close> yields the leftmost match from each position on,
  continuing after its end (none of the expressions here matches the empty string);
  \<^verbatim>\<open>re.search\<close> yields the first. \<open>group_str\<close> is \<^verbatim>\<open>m.group(k)\<close> inside an
  f-string, where \<^verbatim>\<open>None\<close> prints as \<^verbatim>\<open>None\<close>.
\<close>

record re_match =
  m_start :: nat
  m_end :: nat
  m_groups :: "(nat \<times> nat \<times> nat) list"

definition match_at :: "string \<Rightarrow> re_flags \<Rightarrow> rx \<Rightarrow> nat \<Rightarrow> re_match option" where
  "match_at text fl r p =
     (case rmatch text fl (Suc (length text)) r (p, []) of
        [] \<Rightarrow> None
      | st # _ \<Rightarrow> Some \<lparr>m_start = p, m_end = fst st, m_groups = snd st\<rparr>)"

function finditer_from :: "string \<Rightarrow> re_flags \<Rightarrow> rx \<Rightarrow> nat \<Rightarrow> re_match list" where
  "finditer_from text fl r p =
     (if length text < p then []
      else
        (case match_at text fl r p of
           None \<Rightarrow> finditer_from text fl r (Suc p)
         | Some m \<Rightarrow> m # finditer_from text fl r (if p < m_end m then m_end m else Suc p)))"
  by pat_completeness auto
termination
  by (relation "measure (\<lambda>(text, fl, r, p). Suc (length text) - p)") auto

definition finditer :: "re_flags \<Rightarrow> rx \<Rightarrow> string \<Rightarrow> re_match list" where
  "finditer fl r text = finditer_from text fl r 0"

function search_from :: "string \<Rightarrow> re_flags \<Rightarrow> rx \<Rightarrow> nat \<Rightarrow> re_match option" where
  "search_from text fl r p =
     (if length text < p then None
      else
        (case match_at text fl r p of
           None \<Rightarrow> search_from text fl r (Suc p)
         | Some m \<Rightarrow> Some m))"
  by pat_completeness auto
termination
  by (relation "measure (\<lambda>(text, fl, r, p). Suc (length text) - p)") auto

definition re_search :: "re_flags \<Rightarrow> rx \<Rightarrow> string \<Rightarrow> re_match option" where
  "re_search fl r text = search_from text fl r 0"

definition group :: "string \<Rightarrow> re_match \<Rightarrow> nat \<Rightarrow> string option" where
  "group text m k =
     (case map_of (m_groups m) k of
        None \<Rightarrow> None
      | Some (s, e) \<Rightarrow> Some (take (e - s) (drop s text)))"

definition group_str :: "string \<Rightarrow> re_match \<Rightarrow> nat \<Rightarrow> string" where
  "group_str text m k = (case group text m k of None \<Rightarrow> ''None'' | Some s \<Rightarrow> s)"

definition cat :: "rx list \<Rightarrow> rx" where
  "cat rs = foldr Seq rs Eps"

definition any_of :: "rx list \<Rightarrow> rx" where
  "any_of rs = foldr Alt (butlast rs) (last rs)"

definition optional :: "rx \<Rightarrow> rx" where
  "optional r = Alt r Eps"

definition one_or_more :: "rx \<Rightarrow> rx" where
  "one_or_more r = Seq r (Star r)"

definition one_or_more_lazy :: "rx \<Rightarrow> rx" where
  "one_or_more_lazy r = Seq r (LazyStar r)"

fun repeat :: "nat \<Rightarrow> nat \<Rightarrow> rx \<Rightarrow> rx" where
  "repeat m 0 r = Eps"
| "repeat 0 (Suc n) r = optional (Seq r (repeat 0 n r))"
| "repeat (Suc m) (Suc n) r = Seq r (repeat m n r)"

definition repo_name :: rx where
  "repo_name = one_or_more (OneOf [CRange CHR ''a'' CHR ''z'', CRange CHR ''A'' CHR ''Z'',
                           CRange CHR ''0'' CHR ''9'', CChar CHR ''_'', CChar CHR ''.'',
                           CChar CHR ''-''])"

definition owner_repo :: rx where
  "owner_repo = cat [repo_name, Lit ''/'', repo_name]"

definition digits :: rx where
  "digits = one_or_more (OneOf [CDigit])"

definition hex_digit :: rx where
  "hex_digit = OneOf [CRange CHR ''0'' CHR ''9'', CRange CHR ''a'' CHR ''f'']"

definition lead :: rx where
  "lead = Alt Bol (OneOf [CSpace, CChar CHR ''(''])"

definition trail :: rx where
  "trail = Ahead (Alt (OneOf [CSpace, CChar CHR '')'', CChar CHR ''.'', CChar CHR '','',
                             CChar CHR '';'', CChar CHR '':'', CChar CHR ''!'', CChar CHR ''?'',
                             CChar (CHR 0x27)]) Eol)"

definition spaces :: rx where
  "spaces = one_or_more (OneOf [CSpace])"

definition github_prefix :: rx where
  "github_prefix = cat [Lit ''http'', optional (Lit ''s''), Lit ''://github.com/'']"

section \<open>Reference extraction (fetch\_thread.py)\<close>

text \<open>
  \<^verbatim>\<open>_REF_PATTERNS\<close>, in the order of the source; every expression is searched with
  \<^verbatim>\<open>re.MULTILINE\<close>, three of them start with \<^verbatim>\<open>(?i)\<close>. \<open>lead\<close> is
  \<^verbatim>\<open>(?:^|[\s(])\<close> and \<open>trail\<close> is \<^verbatim>\<open>(?=[\s).,;:!?']|$)\<close>.
\<close>

datatype ref_kind =
    issue_ref | gh_ref | github_url | commit_url | full_sha
  | duplicate | duplicate_url | related_ref | external_url

definition flags_m :: re_flags where
  "flags_m = \<lparr>ignorecase = False, multiline = True\<rparr>"

definition flags_mi :: re_flags where
  "flags_mi = \<lparr>ignorecase = True, multiline = True\<rparr>"

definition REF_PATTERNS :: "(re_flags \<times> rx \<times> ref_kind) list" where
  "REF_PATTERNS =
     [(flags_m, cat [lead, optional (Group 1 owner_repo), Lit ''#'', Group 2 digits, trail], issue_ref),
      (flags_m, cat [lead, Lit ''GH-'', Group 1 digits, trail], gh_ref),
      (flags_m, cat [github_prefix, Group 1 owner_repo, Lit ''/'',
                Group 2 (any_of [Lit ''issues'', Lit ''pull'', Lit ''discussions'']), Lit ''/'',
                Group 3 digits,
                optional (cat [Lit ''#'', Star (NoneOf [CSpace, CChar CHR '')''])])], github_url),
      (flags_m, cat [github_prefix, Group 1 owner_repo, Lit ''/commit/'',
                Group 2 (repeat 7 40 hex_digit)], commit_url),
      (flags_m, cat [lead, Group 1 (repeat 40 40 hex_digit), trail], full_sha),
      (flags_mi, cat [any_of [cat [Lit ''duplicate'', spaces, Lit ''of''],
                       cat [Lit ''duplicate'', optional (Lit ''s'')],
                       cat [Lit ''dup'', optional (Lit ''licate''), optional (cat [spaces, Lit ''of''])]],
                  spaces, Lit ''#'', Group 1 digits], duplicate),
      (flags_mi, cat [any_of [cat [Lit ''duplicate'', spaces, Lit ''of''],
                       cat [Lit ''duplicate'', optional (Lit ''s'')]],
                  spaces, github_prefix, Group 1 owner_repo, Lit ''/'',
                  Group 2 (any_of [Lit ''issues'', Lit ''pull'']), Lit ''/'', Group 3 digits],
       duplicate_url),
      (flags_mi, cat [any_of [cat [Lit ''see'', spaces, Lit ''also''],
                       cat [Lit ''related'', optional (cat [spaces, Lit ''to''])],
                       Lit ''fixes'', Lit ''closes'', Lit ''resolves'',
                       cat [Lit ''ref'', optional (Lit ''s'')]],
                  spaces, Lit ''#'', Group 1 digits], related_ref),
      (flags_m, cat [NotBehind 1 (NoneOf [CSpace]),
                Group 1 (cat [Lit ''http'', optional (Lit ''s''), Lit ''://'',
                              NotAhead (Lit ''github.com''),
                              one_or_more_lazy (NoneOf [CSpace, CChar CHR ''<'', CChar CHR ''>'',
                                                 CChar CHR ''['', CChar CHR '']'',
                                                 CChar CHR ''('', CChar CHR '')''])]),
                Ahead (Alt (OneOf [CChar CHR '')'', CSpace, CChar CHR ''.'', CChar CHR '','',
                                   CChar CHR '';'', CChar CHR '':'', CChar CHR ''!'',
                                   CChar CHR ''?'', CChar (CHR 0x27), CChar (CHR 0x22)]) Eol)],
       external_url)]"

definition image_suffix :: rx where
  "image_suffix =
     cat [Lit ''.'', any_of [Lit ''png'', Lit ''jpg'', Lit ''jpeg'', Lit ''gif'', Lit ''svg'',
                          Lit ''ico'', Lit ''webp''],
          Alt (Lit ''?'') Eol]"

text \<open>
  The state of \<^verbatim>\<open>extract_refs\<close> is the list \<^verbatim>\<open>refs\<close> and the set
  \<^verbatim>\<open>seen_urls\<close>; \<open>add_ref\<close> is the local function \<^verbatim>\<open>_add\<close>, \<open>handle_match\<close>
  the body of the inner loop for one match.
\<close>

type_synonym ref_acc = "reference list \<times> string set"

definition add_ref :: "string \<Rightarrow> string \<Rightarrow> string \<Rightarrow> ref_acc \<Rightarrow> ref_acc" where
  "add_ref rtype u context_text acc =
     (let canon = canon_url u in
      if canon \<notin> snd acc
      then (fst acc @ [\<lparr>ref_type = rtype, ref_url = u, ref_ctx = context_text\<rparr>], insert canon (snd acc))
      else acc)"

definition match_context :: "string \<Rightarrow> re_match \<Rightarrow> string" where
  "match_context text m =
     (let start = m_start m - 40; stop = min (length text) (m_end m + 40)
      in py_strip (map (\<lambda>c. if c = CHR 0x0A then CHR '' '' else c)
                       (take (stop - start) (drop start text))))"

definition handle_match :: "string \<Rightarrow> string \<Rightarrow> ref_kind \<Rightarrow> re_match \<Rightarrow> ref_acc \<Rightarrow> ref_acc" where
  "handle_match text repo_context kind m acc =
     (let c = match_context text m; g = group_str text m in
      case kind of
        issue_ref \<Rightarrow>
          (let repo = (case group text m 1 of None \<Rightarrow> repo_context
                       | Some r \<Rightarrow> if r \<noteq> [] then r else repo_context)
           in if repo \<noteq> []
              then add_ref ''issue'' (''https://github.com/'' @ repo @ ''/issues/'' @ g 2) c acc
              else acc)
      | gh_ref \<Rightarrow>
          (if repo_context \<noteq> []
           then add_ref ''issue'' (''https://github.com/'' @ repo_context @ ''/issues/'' @ g 1) c acc
           else acc)
      | github_url \<Rightarrow>
          add_ref (if group text m 2 = Some ''issues'' then ''issue''
                   else if group text m 2 = Some ''pull'' then ''pr''
                   else if group text m 2 = Some ''discussions'' then ''discussion''
                   else ''issue'')
                  (''https://github.com/'' @ g 1 @ ''/'' @ g 2 @ ''/'' @ g 3) c acc
      | commit_url \<Rightarrow>
          add_ref ''commit'' (''https://github.com/'' @ g 1 @ ''/commit/'' @ g 2) c acc
      | full_sha \<Rightarrow>
          (if repo_context \<noteq> []
           then add_ref ''commit'' (''https://github.com/'' @ repo_context @ ''/commit/'' @ g 1) c acc
           else acc)
      | duplicate \<Rightarrow>
          (if repo_context \<noteq> []
           then add_ref ''duplicate'' (''https://github.com/'' @ repo_context @ ''/issues/'' @ g 1) c acc
           else acc)
      | duplicate_url \<Rightarrow>
          add_ref ''duplicate'' (''https://github.com/'' @ g 1 @ ''/'' @ g 2 @ ''/'' @ g 3) c acc
      | related_ref \<Rightarrow>
          (if repo_context \<noteq> []
           then add_ref ''related'' (''https://github.com/'' @ repo_context @ ''/issues/'' @ g 1) c acc
           else acc)
      | external_url \<Rightarrow>
          (if re_search \<lparr>ignorecase = True, multiline = False\<rparr> image_suffix (g 1) = None
           then add_ref ''url'' (g 1) c acc
           else acc))"

definition extract_refs :: "string \<Rightarrow> string \<Rightarrow> reference list" where
  "extract_refs text repo_context =
     (if text = [] then []
      else fst (fold (\<lambda>(fl, r, kind) acc.
                        fold (handle_match text repo_context kind) (finditer fl r text) acc)
                     REF_PATTERNS ([], {})))"

section \<open>The GitHub fetcher (fetch\_thread.py)\<close>

text \<open>
  \<^verbatim>\<open>_http_get\<close> raises on a network error and otherwise returns the dict
  \<^verbatim>\<open>{"status", "text", "json"}\<close>, where \<^verbatim>\<open>"json"\<close> is \<^verbatim>\<open>None\<close> when the body is not
  JSON (and when it is the JSON \<^verbatim>\<open>null\<close>). It is an oracle over the world: the URL,
  the headers and the query parameters go in.
\<close>

record http_result =
  http_status :: int
  http_text :: string
  http_json :: json

type_synonym 'w http_get =
  "string \<Rightarrow> (string \<times> string) list \<Rightarrow> (string \<times> string) list \<Rightarrow> 'w
     \<Rightarrow> (py_error + http_result) \<times> 'w"

definition str_of_int :: "int \<Rightarrow> string" where
  "str_of_int i = (if i < 0 then ''-'' @ str_of_nat (nat (- i)) else str_of_nat (nat i))"

definition gh_headers :: "string option \<Rightarrow> (string \<times> string) list" where
  "gh_headers token =
     (''Accept'', ''application/vnd.github+json'')
       # (case token of
            None \<Rightarrow> []
          | Some t \<Rightarrow> if t \<noteq> [] then [(''Authorization'', ''Bearer '' @ t)] else [])"

definition empty_issue_document :: "string \<Rightarrow> string \<Rightarrow> int \<Rightarrow> document" where
  "empty_issue_document owner repo number =
     \<lparr>doc_url = ''https://github.com/'' @ owner @ ''/'' @ repo @ ''/issues/'' @ str_of_int number,
      doc_type = ''github_issue'', doc_title = [], doc_body = [], doc_state = [],
      doc_labels = [], doc_comments = [], doc_refs = [], doc_links = [], doc_metadata = [],
      doc_error = None\<rparr>"

text \<open>
  The head of \<^verbatim>\<open>fetch_github_issue\<close>: its statements up to and including the test
  \<^verbatim>\<open>if issue.get("pull_request")\<close>, the first statement after the \<^verbatim>\<open>try\<close> around
  the request. It ends the function with the document that carries the error
  (\<open>Returned\<close>), lets an exception leave it (\<open>Raised\<close>: no \<^verbatim>\<open>try\<close> stands around
  that statement, neither here nor in \<^verbatim>\<open>fetch_thread_url\<close>, which returns the
  fetcher's call), or goes on with the issue and whether it is a pull request
  (\<open>Proceeds\<close>). \<open>exc_str\<close> is \<^verbatim>\<open>str(e)\<close> of the exception caught.
\<close>

datatype issue_head = Returned document | Raised py_error | Proceeds json bool

definition fetch_github_issue_head ::
  "'w http_get \<Rightarrow> (py_error \<Rightarrow> string) \<Rightarrow> string \<Rightarrow> string \<Rightarrow> int \<Rightarrow> string option \<Rightarrow> 'w
     \<Rightarrow> issue_head \<times> 'w" where
  "fetch_github_issue_head http_get exc_str owner repo number token w =
     (let base = ''https://api.github.com/repos/'' @ owner @ ''/'' @ repo;
          headers = gh_headers token;
          result = empty_issue_document owner repo number
      in case http_get (base @ ''/issues/'' @ str_of_int number) headers [] w of
           (Inl e, w') \<Rightarrow>
             (Returned (result\<lparr>doc_error := Some (''Failed to fetch issue: '' @ exc_str e)\<rparr>), w')
         | (Inr r, w') \<Rightarrow>
             if http_status r \<ge> 400
             then (Returned (result\<lparr>doc_error :=
                      Some (''GitHub API '' @ str_of_int (http_status r) @ '': ''
                              @ take 200 (http_text r))\<rparr>), w')
             else
               (case py_get (http_json r) ''pull_request'' JNull of
                  Inl e \<Rightarrow> (Raised e, w')
                | Inr pr \<Rightarrow> (Proceeds (http_json r) (py_truthy pr), w')))"

section \<open>Notions the properties are stated with\<close>




text \<open>
  \<open>from_positions cs ps out\<close>: the items of \<open>out\<close> are candidates of \<open>cs\<close>, the
  \<open>k\<close>-th item the one at position \<open>ps ! k\<close>, no position used twice, with the
  candidate's fields as they were.
\<close>

definition from_positions :: "candidate list \<Rightarrow> nat list \<Rightarrow> scored_candidate list \<Rightarrow> bool" where
  "from_positions cs ps out =
     (distinct ps \<and> list_all (\<lambda>p. p < length cs) ps
      \<and> map candidate.truncate out = map (\<lambda>p. cs ! p) ps)"

text \<open>
  The candidate list as the specification words it: refs before links, an entry
  skipped when the canonical form of its URL was seen, capped to 20.
\<close>

fun collect_canon ::
  "candidate list \<Rightarrow> candidate list \<times> string set \<Rightarrow> candidate list \<times> string set" where
  "collect_canon [] acc = acc"
| "collect_canon (c # cs) (candidates, seen) =
     (if url c \<noteq> [] \<and> canon_url (url c) \<notin> seen
      then collect_canon cs (candidates @ [c], insert (canon_url (url c)) seen)
      else collect_canon cs (candidates, seen))"

definition candidates_as_claimed :: "document \<Rightarrow> candidate list" where
  "candidates_as_claimed data =
     take 20 (fst (collect_canon (doc_links data)
                    (collect_canon (map ref_candidate (doc_refs data)) ([], {}))))"

text \<open>
  \<open>collected xs seen ys\<close>: what one loop of \<^verbatim>\<open>_get_candidates\<close> adds over the list
  \<open>xs\<close>, starting with the set \<open>seen\<close>: a subsequence \<open>ys\<close> of \<open>xs\<close> without a
  repeated URL, each entry the first of \<open>xs\<close> with its URL, none with an empty or seen
  URL, and every URL of \<open>xs\<close> that is not empty is seen afterwards.
\<close>

definition collected :: "candidate list \<Rightarrow> string set \<Rightarrow> candidate list \<Rightarrow> bool" where
  "collected xs seen ys =
     (subseq ys xs \<and> distinct (map url ys)
      \<and> (\<forall>y \<in> set ys. url y \<noteq> [] \<and> url y \<notin> seen \<and> find (\<lambda>x. url x = url y) xs = Some y)
      \<and> (\<forall>x \<in> set xs. url x \<noteq> [] \<longrightarrow> url x \<in> seen \<union> url ` set ys))"

text \<open>
  The crawl's trace: the URLs handed to the fetcher, the queue entry a node was made
  from, the entries of the seeds, and the entries one node's expansion appended.
\<close>

fun fetch_url_of :: "event \<Rightarrow> string list" where
  "fetch_url_of (EvFetch d u) = [u]"
| "fetch_url_of _ = []"

definition fetch_attempts :: "event list \<Rightarrow> string list" where
  "fetch_attempts tr = concat (map fetch_url_of tr)"

definition node_entry :: "node \<Rightarrow> entry" where
  "node_entry n = (node_url n, node_depth n, node_score n, node_reason n)"

definition seed_entry :: "string list \<Rightarrow> entry \<Rightarrow> bool" where
  "seed_entry seed_urls e = (\<exists>u \<in> set seed_urls. e = (u, 0, 1, JStr ''seed''))"

definition enqueued_by :: "event list \<Rightarrow> node \<Rightarrow> entry \<Rightarrow> bool" where
  "enqueued_by tr p e =
     (\<exists>es. EvEnqueue (node_url p) es \<in> set tr \<and> e \<in> set es
        \<and> fst (snd e) = node_depth p + 1)"

text \<open>
  Invariants of the loop of \<^verbatim>\<open>track\<close>. \<open>fetch_inv\<close>: the URLs handed to the fetcher
  are distinct in canonical form, and all in \<open>visited\<close>. \<open>entry_origin\<close>: a queue
  entry is a seed's, or one that the expansion of one of the first \<open>bound\<close> nodes
  appended. \<open>depth_inv\<close>: every node is no deeper than \<open>max_depth\<close> and made from an
  entry whose origin lies before it; every queued entry has an origin among the nodes.
  \<open>bound_inv\<close>: the sizes of the candidate lists scored and of the batches enqueued.
\<close>

definition fetch_inv :: "'w crawl \<Rightarrow> bool" where
  "fetch_inv s =
     (distinct (map canon_url (fetch_attempts (trace s)))
      \<and> canon_url ` set (fetch_attempts (trace s)) \<subseteq> visited s)"

definition entry_origin :: "string list \<Rightarrow> node list \<Rightarrow> event list \<Rightarrow> nat \<Rightarrow> entry \<Rightarrow> bool" where
  "entry_origin seed_urls ns tr bound e =
     (seed_entry seed_urls e \<or> (\<exists>j < bound. enqueued_by tr (ns ! j) e))"

definition depth_inv :: "string list \<Rightarrow> params \<Rightarrow> 'w crawl \<Rightarrow> bool" where
  "depth_inv seed_urls P s =
     ((\<forall>i < length (nodes s). node_depth (nodes s ! i) \<le> max_depth P
          \<and> entry_origin seed_urls (nodes s) (trace s) i (node_entry (nodes s ! i)))
      \<and> (\<forall>e \<in> set (queue s). entry_origin seed_urls (nodes s) (trace s) (length (nodes s)) e))"

definition bound_inv :: "params \<Rightarrow> 'w crawl \<Rightarrow> bool" where
  "bound_inv P s =
     ((\<forall>u cs. EvScore u cs \<in> set (trace s) \<longrightarrow> length cs \<le> 20)
      \<and> (\<forall>u es. EvEnqueue u es \<in> set (trace s) \<longrightarrow> 0 \<le> max_per_level P
            \<longrightarrow> int (length es) \<le> max_per_level P))"

section \<open>Concrete inputs\<close>

text \<open>A scoring service that is down: every call raises and is counted in the world.\<close>

definition llm_down_env :: "nat gate_env" where
  "llm_down_env =
     \<lparr>call_llm = (\<lambda>p n. (LLMRaises URLError, Suc n)),
      json_loads = (\<lambda>s. None), str_to_float = (\<lambda>s. None)\<rparr>"

definition cand_a :: candidate where
  "cand_a = \<lparr>url = ''https://a.example/x'', anchor = ''A'', ctx = ''about a''\<rparr>"

definition cand_b :: candidate where
  "cand_b = \<lparr>url = ''https://b.example/y'', anchor = ''B'', ctx = ''about b''\<rparr>"

text \<open>
  A scoring service that answers. \<open>scores_reply\<close> is a fenced JSON array for two
  candidates; \<open>object_payload\<close> is a single JSON object, not an array; the text
  \<^verbatim>\<open>null\<close> is JSON too.
  \<open>json_table\<close> is \<^verbatim>\<open>json.loads\<close> on the texts used here.
\<close>

definition scores_payload :: string where
  \<open>scores_payload =
     ''[{"id": 1, "score": 0.6, "reason": "maybe"}, {"id": 2, "score": 0.9, "reason": "direct"}]''\<close>

definition scores_reply :: string where
  "scores_reply = ''```json\<newline>'' @ scores_payload @ ''\<newline>```\<newline>''"

definition scores_json :: json where
  "scores_json =
     JList [JDict [(''id'', JInt 1), (''score'', JFloat 0.6), (''reason'', JStr ''maybe'')],
            JDict [(''id'', JInt 2), (''score'', JFloat 0.9), (''reason'', JStr ''direct'')]]"

definition object_payload :: string where
  \<open>object_payload = ''{"id": 1, "score": 0.9, "reason": "relevant"}''\<close>

definition object_json :: json where
  "object_json = JDict [(''id'', JInt 1), (''score'', JFloat 0.9), (''reason'', JStr ''relevant'')]"

definition json_table :: "string \<Rightarrow> json option" where
  "json_table s =
     (if s = scores_payload then Some scores_json
      else if s = object_payload then Some object_json
      else if s = ''null'' then Some JNull
      else None)"

definition llm_says :: "string \<Rightarrow> nat gate_env" where
  "llm_says reply =
     \<lparr>call_llm = (\<lambda>p n. (LLMReturns (JStr reply), Suc n)),
      json_loads = json_table, str_to_float = (\<lambda>s. None)\<rparr>"

text \<open>
  A web page whose text cites \<^verbatim>\<open>https://github.com/o/r/issues/5\<close> and which links to
  \<^verbatim>\<open>https://github.com/o/r/issues/5/\<close>. Its refs are what \<open>extract_refs\<close> finds in
  its body.
\<close>

definition page_with_slash_twin :: document where
  "page_with_slash_twin =
     \<lparr>doc_url = ''https://example.com/'', doc_type = ''web_page'', doc_title = ''Example'',
      doc_body = ''see https://github.com/o/r/issues/5 for more'', doc_state = [],
      doc_labels = [], doc_comments = [],
      doc_refs = [\<lparr>ref_type = ''issue'', ref_url = ''https://github.com/o/r/issues/5'',
                   ref_ctx = ''see https://github.com/o/r/issues/5 for more''\<rparr>],
      doc_links = [\<lparr>url = ''https://github.com/o/r/issues/5/'', anchor = ''Issue 5'',
                    ctx = ''Issue 5 on GitHub''\<rparr>],
      doc_metadata = [], doc_error = None\<rparr>"

text \<open>
  A small crawl. The root page links to three pages; the page A is fetched, the fetch
  of every other page fails; the reasoning service is down, so the summary falls back
  to concatenation and the gate fails open. The seeds name the root twice, once with
  its trailing slash. \<open>demo_final\<close> is the state the crawl ends in when two of the
  three scored candidates are enqueued.
\<close>

definition link_a :: candidate where
  "link_a = \<lparr>url = ''https://example.com/a'', anchor = ''Page A'', ctx = ''Page A first''\<rparr>"

definition link_b :: candidate where
  "link_b = \<lparr>url = ''https://example.com/b'', anchor = ''Page B'', ctx = ''Page B second''\<rparr>"

definition link_c :: candidate where
  "link_c = \<lparr>url = ''https://example.com/c'', anchor = ''Page C'', ctx = ''Page C third''\<rparr>"

definition page_root :: document where
  "page_root =
     \<lparr>doc_url = ''https://example.com/'', doc_type = ''web_page'', doc_title = ''Root'',
      doc_body = ''three links'', doc_state = [], doc_labels = [], doc_comments = [], doc_refs = [],
      doc_links = [link_a, link_b, link_c], doc_metadata = [], doc_error = None\<rparr>"

definition page_a :: document where
  "page_a =
     \<lparr>doc_url = ''https://example.com/a'', doc_type = ''web_page'', doc_title = ''A'',
      doc_body = ''back to b'', doc_state = [], doc_labels = [], doc_comments = [], doc_refs = [],
      doc_links = [link_b], doc_metadata = [], doc_error = None\<rparr>"

definition demo_fetch :: "string \<Rightarrow> nat \<Rightarrow> (py_error + document) \<times> nat" where
  "demo_fetch u n =
     (if u = ''https://example.com/'' then (Inr page_root, Suc n)
      else if u = ''https://example.com/a'' then (Inr page_a, Suc n)
      else (Inl URLError, Suc n))"

definition demo_env :: "nat crawl_env" where
  "demo_env =
     \<lparr>call_llm = (\<lambda>p n. (LLMRaises URLError, Suc n)),
      json_loads = (\<lambda>s. None), str_to_float = (\<lambda>s. None),
      fetch_thread_url = demo_fetch\<rparr>"

definition demo_params :: "int \<Rightarrow> params" where
  "demo_params k = \<lparr>query = ''q'', max_depth = 1, threshold = 0.5, max_per_level = k\<rparr>"

definition demo_seeds :: "string list" where
  "demo_seeds = [''https://example.com/'', ''https://example.com'']"

definition demo_final :: "nat crawl" where
  "demo_final =
     \<lparr>queue = [], visited = {''https://example.com'', ''https://example.com/a'', ''https://example.com/b''},
      nodes = [make_node ''https://example.com/'' 0 1 (JStr ''seed'') page_root,
               make_node ''https://example.com/a'' 1 0.5 (JStr ''LLM unavailable'') page_a],
      knowledge = ''Read: Root. Also read: A.'', world = 6,
      trace = [EvFetch 0 ''https://example.com/'',
               EvScore ''https://example.com/'' [link_a, link_b, link_c],
               EvEnqueue ''https://example.com/''
                 [(''https://example.com/a'', 1, 0.5, JStr ''LLM unavailable''),
                  (''https://example.com/b'', 1, 0.5, JStr ''LLM unavailable'')],
               EvFetch 1 ''https://example.com/a'',
               EvFetch 1 ''https://example.com/b''],
      failure = None\<rparr>"

text \<open>
  A GitHub API that answers every request with status 200 and an HTML page, as a proxy
  or a sign-in wall does: the body is not JSON.
\<close>

definition html_wall :: "nat http_get" where
  "html_wall u headers ps n =
     (Inr \<lparr>http_status = 200, http_text = ''<html><body>Sign in</body></html>'',
            http_json = JNull\<rparr>, Suc n)"

section \<open>The relevance gate: properties\<close>

lemma length_slice_to_nonneg: "0 \<le> n \<Longrightarrow> int (length (slice_to n xs)) \<le> n"
  by (simp add: slice_to_def)

lemma length_fail_open: "length (fail_open why cs) = length cs"
  by (simp add: fail_open_def)

lemma nth_fail_open:
  "i < length cs \<Longrightarrow> fail_open why cs ! i = with_score 0.5 (JStr why) (cs ! i)"
  by (simp add: fail_open_def)

lemma truncate_with_score: "candidate.truncate (with_score sc rs c) = c"
  by (simp add: with_score_def candidate.truncate_def)

text \<open>
  C8. If the call of the scoring service raises, \<open>score_candidates\<close> returns one item
  per candidate, in order, each the candidate with score 0.5 and reason
  "LLM unavailable". For the empty list it returns the empty list and leaves the world
  as it was, whatever the oracle is: no call was made (an oracle that counts its calls,
  as the one of the witness, would have counted it).
\<close>

theorem score_candidates_llm_unavailable:
  "(candidates \<noteq> []
      \<and> call_llm E (build_prompt q ks candidates) w = (LLMRaises e, w')
      \<longrightarrow> (\<exists>out. score_candidates E q candidates ks t w = (Inr out, w')
             \<and> length out = length candidates
             \<and> (\<forall>i < length out. score (out ! i) = 0.5
                    \<and> reason (out ! i) = JStr ''LLM unavailable''
                    \<and> candidate.truncate (out ! i) = candidates ! i)))
   \<and> score_candidates E q [] ks t w = (Inr [], w)"
proof (intro conjI impI)
  assume a: "candidates \<noteq> []
    \<and> call_llm E (build_prompt q ks candidates) w = (LLMRaises e, w')"
  let ?out = "fail_open ''LLM unavailable'' candidates"
  have run: "score_candidates E q candidates ks t w = (Inr ?out, w')"
    using a by (simp add: score_candidates_def)
  have items: "\<forall>i < length ?out. score (?out ! i) = 0.5
      \<and> reason (?out ! i) = JStr ''LLM unavailable''
      \<and> candidate.truncate (?out ! i) = candidates ! i"
    by (simp add: length_fail_open nth_fail_open truncate_with_score) (simp add: with_score_def)
  show "\<exists>out. score_candidates E q candidates ks t w = (Inr out, w')
             \<and> length out = length candidates
             \<and> (\<forall>i < length out. score (out ! i) = 0.5
                    \<and> reason (out ! i) = JStr ''LLM unavailable''
                    \<and> candidate.truncate (out ! i) = candidates ! i)"
    using run items length_fail_open by blast
next
  show "score_candidates E q [] ks t w = (Inr [], w)"
    by (simp add: score_candidates_def)
qed

theorem score_candidates_llm_unavailable_witness:
  "score_candidates llm_down_env ''q'' [cand_a, cand_b] '''' 0.5 (0::nat)
     = (Inr [with_score 0.5 (JStr ''LLM unavailable'') cand_a,
             with_score 0.5 (JStr ''LLM unavailable'') cand_b], 1)
   \<and> score_candidates llm_down_env ''q'' [] '''' 0.5 (0::nat) = (Inr [], 0)"
  using score_candidates_llm_unavailable
    [of "[cand_a, cand_b]" llm_down_env "''q''" "''''" 0 URLError 1 "0.5"]
  by (simp add: llm_down_env_def score_candidates_def fail_open_def)







lemma from_positions_fail_open:
  "from_positions cs [0..<length cs] (fail_open why cs)"
  by (simp add: from_positions_def fail_open_def list_all_iff truncate_with_score map_nth o_def)

lemma from_positions_Cons_keep:
  assumes "from_positions cs ps res"
  shows "from_positions (c # cs) (0 # map Suc ps) (with_score sc rs c # res)"
  using assms
  by (auto simp: from_positions_def truncate_with_score list_all_iff distinct_map o_def)

lemma from_positions_Cons_drop:
  assumes "from_positions cs ps res"
  shows "from_positions (c # cs) (map Suc ps) res"
  using assms
  by (auto simp: from_positions_def list_all_iff distinct_map o_def)

lemma merge_scores_positions:
  "merge_scores sf m t i cs = Inr res \<Longrightarrow> \<exists>ps. from_positions cs ps res"
proof (induction cs arbitrary: i res)
  case Nil
  then show ?case by (simp add: from_positions_def)
next
  case (Cons c cs)
  show ?case
  proof (cases "merge_scores sf m t (i + 1) cs")
    case (Inl e)
    with Cons.prems show ?thesis
      by (auto simp: Let_def split: sum.splits if_splits)
  next
    case (Inr res')
    then obtain ps where ps: "from_positions cs ps res'"
      using Cons.IH by blast
    from Cons.prems Inr consider (keep) sc rs where "res = with_score sc rs c # res'" | (drop) "res = res'"
      by (auto simp: Let_def split: sum.splits if_splits)
    then show ?thesis
    proof cases
      case keep
      then show ?thesis using from_positions_Cons_keep[OF ps] by blast
    next
      case drop
      then show ?thesis using from_positions_Cons_drop[OF ps] by blast
    qed
  qed
qed

lemma from_positions_permute:
  assumes fp: "from_positions cs ps res" and m: "mset out = mset res"
  shows "\<exists>ps'. from_positions cs ps' out"
proof -
  have len: "length res = length ps"
    using fp by (auto simp: from_positions_def dest: map_eq_imp_length_eq)
  from ex_mset_zip_left[OF len m] obtain ps' where
    l': "length ps' = length out" and z: "mset (zip out ps') = mset (zip res ps)"
    by blast
  have "mset ps' = mset (map snd (zip out ps'))" using l' by simp
  also have "\<dots> = mset (map snd (zip res ps))" using z by (metis mset_map)
  also have "\<dots> = mset ps" using len by simp
  finally have mp: "mset ps' = mset ps" .
  have d: "distinct ps'" using mp fp mset_eq_imp_distinct_iff by (auto simp: from_positions_def)
  have s: "set ps' = set ps" using mp mset_eq_setD by blast
  have pair: "\<And>x p. (x, p) \<in> set (zip res ps) \<Longrightarrow> candidate.truncate x = cs ! p"
  proof -
    fix x p assume "(x, p) \<in> set (zip res ps)"
    then obtain k where k: "k < length res" "res ! k = x" "ps ! k = p"
      by (auto simp: set_zip)
    have "map candidate.truncate res ! k = map (\<lambda>p. cs ! p) ps ! k"
      using fp by (simp add: from_positions_def)
    then show "candidate.truncate x = cs ! p" using k len by simp
  qed
  have sz: "set (zip out ps') = set (zip res ps)" using z mset_eq_setD by blast
  have "map candidate.truncate out = map (\<lambda>p. cs ! p) ps'"
  proof (rule nth_equalityI)
    show "length (map candidate.truncate out) = length (map (\<lambda>p. cs ! p) ps')" using l' by simp
  next
    fix k assume "k < length (map candidate.truncate out)"
    then have k: "k < length out" by simp
    then have "(out ! k, ps' ! k) \<in> set (zip out ps')" using l' by (auto simp: set_zip)
    then have "candidate.truncate (out ! k) = cs ! (ps' ! k)" using sz pair by blast
    then show "map candidate.truncate out ! k = map (\<lambda>p. cs ! p) ps' ! k" using k l' by simp
  qed
  then show ?thesis using d s fp by (auto simp: from_positions_def list_all_iff)
qed

lemma parse_and_merge_positions:
  "parse_and_merge E raw cs t = Inr out \<Longrightarrow> \<exists>ps. from_positions cs ps out"
proof -
  assume a: "parse_and_merge E raw cs t = Inr out"
  show ?thesis
  proof (cases "json_loads E (strip_code_fence raw)")
    case None
    with a show ?thesis using from_positions_fail_open by (auto simp: parse_and_merge_def)
  next
    case (Some scores)
    with a obtain items m res where
      "merge_scores (str_to_float E) m t 1 cs = Inr res" and o: "out = sort_by_score_desc res"
      by (auto simp: parse_and_merge_def split: sum.splits)
    then obtain ps where "from_positions cs ps res" using merge_scores_positions by blast
    moreover have "mset out = mset res" by (simp add: o sort_by_score_desc_def)
    ultimately show ?thesis using from_positions_permute by blast
  qed
qed

lemma score_candidates_positions:
  "score_candidates E q cs ks t w = (Inr out, w') \<Longrightarrow> \<exists>ps. from_positions cs ps out"
proof -
  assume a: "score_candidates E q cs ks t w = (Inr out, w')"
  show ?thesis
  proof (cases "cs = []")
    case True
    with a show ?thesis by (auto simp: score_candidates_def from_positions_def)
  next
    case False
    with a show ?thesis
      using from_positions_fail_open parse_and_merge_positions
      by (auto simp: score_candidates_def split: prod.splits llm_reply.splits json.splits)
  qed
qed

lemma strip_scores_reply: "strip_code_fence scores_reply = scores_payload"
  by (simp add: strip_code_fence_def scores_reply_def scores_payload_def py_strip_def
      is_space_def startswith_def drop_first_line_def rstrip_chars_def)

lemma strip_object_payload: "strip_code_fence object_payload = object_payload"
  by (simp add: strip_code_fence_def object_payload_def py_strip_def
      is_space_def startswith_def drop_first_line_def rstrip_chars_def)

lemma payloads_differ: "object_payload \<noteq> scores_payload"
  by (simp add: object_payload_def scores_payload_def)

lemma run_scores_reply:
  "score_candidates (llm_says scores_reply) ''q'' [cand_a, cand_b] '''' 0.5 (0::nat)
     = (Inr [with_score 0.9 (JStr ''direct'') cand_b, with_score 0.6 (JStr ''maybe'') cand_a], 1)"
  by (simp add: score_candidates_def llm_says_def parse_and_merge_def strip_scores_reply
      json_table_def scores_json_def score_map_get_def sort_by_score_desc_def with_score_def)



text \<open>
  C10. Every item \<open>score_candidates\<close> returns is one of the candidates it was given,
  no candidate (position) twice, with the candidate's url, anchor and context as they
  were: removing score and reason from the item gives the candidate back. This holds
  on every path that returns: the empty list, both fail-open branches and the merge.
\<close>

theorem score_candidates_frame:
  assumes "score_candidates E q cs ks t w = (Inr out, w')"
  shows "\<exists>ps. length ps = length out \<and> distinct ps
           \<and> (\<forall>k < length out. ps ! k < length cs
                  \<and> url (out ! k) = url (cs ! (ps ! k))
                  \<and> anchor (out ! k) = anchor (cs ! (ps ! k))
                  \<and> ctx (out ! k) = ctx (cs ! (ps ! k))
                  \<and> candidate.truncate (out ! k) = cs ! (ps ! k))"
proof -
  from score_candidates_positions[OF assms] obtain ps where fp: "from_positions cs ps out"
    by blast
  then have m: "map candidate.truncate out = map (\<lambda>p. cs ! p) ps"
    and d: "distinct ps" and b: "\<forall>p \<in> set ps. p < length cs"
    by (auto simp: from_positions_def list_all_iff)
  have len: "length ps = length out" using m by (metis length_map)
  have "\<forall>k < length out. ps ! k < length cs
      \<and> url (out ! k) = url (cs ! (ps ! k))
      \<and> anchor (out ! k) = anchor (cs ! (ps ! k))
      \<and> ctx (out ! k) = ctx (cs ! (ps ! k))
      \<and> candidate.truncate (out ! k) = cs ! (ps ! k)"
  proof (intro allI impI)
    fix k assume k: "k < length out"
    have "map candidate.truncate out ! k = map (\<lambda>p. cs ! p) ps ! k" using m by simp
    then have tr: "candidate.truncate (out ! k) = cs ! (ps ! k)" using k len by simp
    have "url (candidate.truncate (out ! k)) = url (out ! k)"
      "anchor (candidate.truncate (out ! k)) = anchor (out ! k)"
      "ctx (candidate.truncate (out ! k)) = ctx (out ! k)"
      by (simp_all add: candidate.truncate_def)
    then show "ps ! k < length cs
      \<and> url (out ! k) = url (cs ! (ps ! k))
      \<and> anchor (out ! k) = anchor (cs ! (ps ! k))
      \<and> ctx (out ! k) = ctx (cs ! (ps ! k))
      \<and> candidate.truncate (out ! k) = cs ! (ps ! k)"
      using tr b k len by (metis nth_mem)
  qed
  then show ?thesis using len d by blast
qed

theorem score_candidates_frame_witness:
  "score_candidates (llm_says scores_reply) ''q'' [cand_a, cand_b] '''' 0.5 (0::nat)
     = (Inr [with_score 0.9 (JStr ''direct'') cand_b, with_score 0.6 (JStr ''maybe'') cand_a], 1)
   \<and> (\<exists>ps. length ps
           = length [with_score 0.9 (JStr ''direct'') cand_b, with_score 0.6 (JStr ''maybe'') cand_a]
         \<and> distinct ps
         \<and> (\<forall>k < length [with_score 0.9 (JStr ''direct'') cand_b,
                            with_score 0.6 (JStr ''maybe'') cand_a].
               ps ! k < length [cand_a, cand_b]
             \<and> url ([with_score 0.9 (JStr ''direct'') cand_b,
                      with_score 0.6 (JStr ''maybe'') cand_a] ! k) = url ([cand_a, cand_b] ! (ps ! k))
             \<and> anchor ([with_score 0.9 (JStr ''direct'') cand_b,
                      with_score 0.6 (JStr ''maybe'') cand_a] ! k) = anchor ([cand_a, cand_b] ! (ps ! k))
             \<and> ctx ([with_score 0.9 (JStr ''direct'') cand_b,
                      with_score 0.6 (JStr ''maybe'') cand_a] ! k) = ctx ([cand_a, cand_b] ! (ps ! k))
             \<and> candidate.truncate ([with_score 0.9 (JStr ''direct'') cand_b,
                      with_score 0.6 (JStr ''maybe'') cand_a] ! k) = [cand_a, cand_b] ! (ps ! k)))"
  by (rule conjI[OF run_scores_reply score_candidates_frame[OF run_scores_reply]])

text \<open>
  Where \<^verbatim>\<open>json.loads\<close> rejects the reply, \<open>score_candidates\<close> fails open with the
  reason "parse error".
\<close>

lemma score_candidates_parse_error:
  assumes "cs \<noteq> []"
    and "call_llm E (build_prompt q ks cs) w = (LLMReturns (JStr raw), w')"
    and "json_loads E (strip_code_fence raw) = None"
  shows "score_candidates E q cs ks t w = (Inr (fail_open ''parse error'' cs), w')"
  using assms by (simp add: score_candidates_def parse_and_merge_def)

lemma strip_null: "strip_code_fence ''null'' = ''null''"
  by (simp add: strip_code_fence_def py_strip_def is_space_def startswith_def)

lemma null_differs: "''null'' \<noteq> scores_payload" "''null'' \<noteq> object_payload"
  by (simp_all add: object_payload_def scores_payload_def)

text \<open>
  C2. A reply that is JSON, but not an array of score objects, cannot be parsed into
  scores for the candidates, and yet \<^verbatim>\<open>json.loads\<close> does not reject it: the handler
  for \<^verbatim>\<open>JSONDecodeError\<close> is not reached and the merge raises instead of failing open.
  For the reply \<^verbatim>\<open>null\<close> the comprehension iterates \<^verbatim>\<open>None\<close>; for the single object
  \<open>object_payload\<close> it iterates the keys, finds \<^verbatim>\<open>"id" in "id"\<close> and indexes the
  string. Both raise \<^verbatim>\<open>TypeError\<close>, which leaves \<open>score_candidates\<close>.
\<close>

theorem score_candidates_json_reply_raises:
  "score_candidates (llm_says ''null'') ''q'' [cand_a] '''' 0.5 (0::nat) = (Inl TypeError, 1)
   \<and> score_candidates (llm_says object_payload) ''q'' [cand_a] '''' 0.5 (0::nat)
       = (Inl TypeError, 1)"
proof
  show "score_candidates (llm_says ''null'') ''q'' [cand_a] '''' 0.5 (0::nat) = (Inl TypeError, 1)"
    by (simp add: score_candidates_def llm_says_def parse_and_merge_def strip_null
        json_table_def null_differs)
  show "score_candidates (llm_says object_payload) ''q'' [cand_a] '''' 0.5 (0::nat)
       = (Inl TypeError, 1)"
    by (simp add: score_candidates_def llm_says_def parse_and_merge_def strip_object_payload
        json_table_def payloads_differ object_json_def startswith_def)
qed

section \<open>The crawl orchestrator: properties\<close>

lemma collect_collected:
  "\<exists>ys. collect xs (acc, seen) = (acc @ ys, seen \<union> url ` set ys) \<and> collected xs seen ys"
proof (induction xs arbitrary: acc seen)
  case Nil
  then show ?case by (simp add: collected_def)
next
  case (Cons c cs)
  show ?case
  proof (cases "url c \<noteq> [] \<and> url c \<notin> seen")
    case True
    from Cons.IH[of "acc @ [c]" "insert (url c) seen"] obtain ys where
      ys: "collect cs (acc @ [c], insert (url c) seen) = ((acc @ [c]) @ ys, insert (url c) seen \<union> url ` set ys)"
        "collected cs (insert (url c) seen) ys"
      by blast
    have "collect (c # cs) (acc, seen) = (acc @ (c # ys), seen \<union> url ` set (c # ys))"
      using True ys(1) by simp
    moreover have "collected (c # cs) seen (c # ys)"
      using True ys(2) unfolding collected_def by (auto simp: image_iff)
    ultimately show ?thesis by blast
  next
    case False
    from Cons.IH[of acc seen] obtain ys where
      ys: "collect cs (acc, seen) = (acc @ ys, seen \<union> url ` set ys)" "collected cs seen ys"
      by blast
    have "collect (c # cs) (acc, seen) = (acc @ ys, seen \<union> url ` set ys)"
      using False ys(1) by auto
    moreover have "collected (c # cs) seen ys"
      using False ys(2) unfolding collected_def by (auto simp: subseq_Cons')
    ultimately show ?thesis by blast
  qed
qed

lemma visit_cases [case_names skip fetch_failed leaf scoring_raised expanded]:
  fixes s :: "'w crawl"
  obtains
    (skip) "canon_url u \<in> visited s \<or> depth > max_depth P"
      "visit E P (u, depth, sc, rs) s = s"
  | (fetch_failed) wf where "canon_url u \<notin> visited s" "depth \<le> max_depth P"
      "visit E P (u, depth, sc, rs) s
         = s\<lparr>visited := insert (canon_url u) (visited s), trace := trace s @ [EvFetch depth u],
              world := wf\<rparr>"
  | (leaf) data ks wk where "canon_url u \<notin> visited s" "depth \<le> max_depth P"
      "visit E P (u, depth, sc, rs) s
         = s\<lparr>visited := insert (canon_url u) (visited s), trace := trace s @ [EvFetch depth u],
              nodes := nodes s @ [make_node u depth sc rs data], knowledge := ks, world := wk\<rparr>"
  | (scoring_raised) data ks ws err where "canon_url u \<notin> visited s" "depth < max_depth P"
      "get_candidates data \<noteq> []"
      "visit E P (u, depth, sc, rs) s
         = s\<lparr>visited := insert (canon_url u) (visited s),
              trace := trace s @ [EvFetch depth u, EvScore u (slice_to 20 (get_candidates data))],
              nodes := nodes s @ [make_node u depth sc rs data], knowledge := ks, world := ws,
              failure := Some err\<rparr>"
  | (expanded) data ks wk ws scored where "canon_url u \<notin> visited s" "depth < max_depth P"
      "get_candidates data \<noteq> []"
      "score_candidates E (query P) (slice_to 20 (get_candidates data)) ks (threshold P) wk
         = (Inr scored, ws)"
      "visit E P (u, depth, sc, rs) s
         = s\<lparr>visited := insert (canon_url u) (visited s),
              trace := trace s @ [EvFetch depth u, EvScore u (slice_to 20 (get_candidates data)),
                 EvEnqueue u (map (entry_of depth) (slice_to (max_per_level P) scored))],
              nodes := nodes s @ [make_node u depth sc rs data], knowledge := ks, world := ws,
              queue := queue s @ map (entry_of depth) (slice_to (max_per_level P) scored)\<rparr>"
proof (cases "canon_url u \<in> visited s \<or> depth > max_depth P")
  case True
  then show ?thesis using skip by (simp add: visit_def)
next
  case nskip: False
  obtain r w1 where f: "fetch_thread_url E u (world s) = (r, w1)"
    by (cases "fetch_thread_url E u (world s)")
  show ?thesis
  proof (cases r)
    case (Inl err)
    then show ?thesis using nskip f fetch_failed[where wf = w1] by (simp add: visit_def Let_def)
  next
    case (Inr data)
    let ?nd = "make_node u depth sc rs data"
    obtain ks w2 where k: "update_knowledge E (knowledge s) ?nd w1 = (ks, w2)"
      by (cases "update_knowledge E (knowledge s) ?nd w1")
    show ?thesis
    proof (cases "depth \<ge> max_depth P \<or> get_candidates data = []")
      case True
      then show ?thesis using nskip f Inr k leaf[where data = data and ks = ks and wk = w2]
        by (auto simp: visit_def Let_def expand_def)
    next
      case False
      obtain r' w3 where sc: "score_candidates E (query P) (slice_to 20 (get_candidates data)) ks (threshold P) w2 = (r', w3)"
        by (cases "score_candidates E (query P) (slice_to 20 (get_candidates data)) ks (threshold P) w2")
      show ?thesis
      proof (cases r')
        case (Inl err)
        then show ?thesis using nskip f Inr k False sc scoring_raised[where data = data and ks = ks and ws = w3 and err = err]
          by (simp add: visit_def Let_def expand_def)
      next
        case (Inr scored)
        then show ?thesis using nskip f \<open>r = Inr data\<close> k False sc expanded[where data = data and ks = ks and wk = w2 and ws = w3 and scored = scored]
          by (simp add: visit_def Let_def expand_def)
      qed
    qed
  qed
qed

lemma track_loop_Nil: "queue s = [] \<Longrightarrow> track_loop E P s = s"
  by (subst track_loop.simps) simp

lemma track_loop_Cons:
  "queue s = e # rest \<Longrightarrow>
   track_loop E P s =
     (if failure (visit E P e (s\<lparr>queue := rest\<rparr>)) = None
      then track_loop E P (visit E P e (s\<lparr>queue := rest\<rparr>))
      else visit E P e (s\<lparr>queue := rest\<rparr>))"
  by (subst track_loop.simps) (simp add: Let_def)

lemma track_loop_invariant:
  assumes "I s"
    and step: "\<And>s e rest. I s \<Longrightarrow> queue s = e # rest \<Longrightarrow> I (visit E P e (s\<lparr>queue := rest\<rparr>))"
  shows "I (track_loop E P s)"
  using assms
proof (induction E P s rule: track_loop.induct)
  case (1 E P s)
  show ?case
  proof (cases "queue s")
    case Nil
    then show ?thesis using "1.prems"(1) by (simp add: track_loop_Nil)
  next
    case (Cons e rest)
    let ?s' = "visit E P e (s\<lparr>queue := rest\<rparr>)"
    have i': "I ?s'" using "1.prems"(2)[OF "1.prems"(1) Cons] .
    show ?thesis
    proof (cases "failure ?s' = None")
      case True
      have "I (track_loop E P ?s')"
        using "1.IH"[OF Cons refl True i'] "1.prems"(2) by blast
      then show ?thesis using True by (simp add: track_loop_Cons[OF Cons])
    next
      case False
      then show ?thesis using i' by (auto simp: track_loop_Cons[OF Cons])
    qed
  qed
qed

text \<open>The run of the small crawl, step by step.\<close>

lemma demo_canon:
  "canon_url ''https://example.com/'' = ''https://example.com''"
  "canon_url ''https://example.com'' = ''https://example.com''"
  "canon_url ''https://example.com/a'' = ''https://example.com/a''"
  "canon_url ''https://example.com/b'' = ''https://example.com/b''"
  by (simp_all add: canon_url_def rstrip_chars_def)

lemma demo_candidates:
  "get_candidates page_root = [link_a, link_b, link_c]"
  "get_candidates page_a = [link_b]"
  by (simp_all add: get_candidates_def page_root_def page_a_def link_a_def link_b_def link_c_def)

lemma demo_scored:
  "score_candidates demo_env q [link_a, link_b, link_c] ks t n
     = (Inr [with_score 0.5 (JStr ''LLM unavailable'') link_a,
             with_score 0.5 (JStr ''LLM unavailable'') link_b,
             with_score 0.5 (JStr ''LLM unavailable'') link_c], Suc n)"
  by (simp add: score_candidates_def demo_env_def fail_open_def)

lemma demo_knowledge:
  "update_knowledge demo_env ks (make_node u d sc rs data) n
     = (if ks \<noteq> [] then ks @ '' Also read: '' @ doc_title data @ ''.''
        else ''Read: '' @ doc_title data @ ''.'', Suc n)"
  by (simp add: update_knowledge_def demo_env_def make_node_def)

lemma demo_cap: "slice_to 20 [a, b, c] = [a, b, c]" "slice_to 20 [a] = [a]"
  by (simp_all add: slice_to_def)

lemma demo_titles: "doc_title page_root = ''Root''" "doc_title page_a = ''A''"
  by (simp_all add: page_root_def page_a_def)

lemma demo_fetch_env: "fetch_thread_url demo_env = demo_fetch"
  by (simp add: demo_env_def)

lemma entry_of_with_score: "entry_of d (with_score sc rs c) = (url c, d + 1, sc, rs)"
  by (simp add: entry_of_def with_score_def)

lemma demo_urls:
  "url link_a = ''https://example.com/a''" "url link_b = ''https://example.com/b''"
  "url link_c = ''https://example.com/c''"
  by (simp_all add: link_a_def link_b_def link_c_def)

lemma demo_step1:
  "visit demo_env (demo_params k) (''https://example.com/'', 0, 1, JStr ''seed'')
     \<lparr>queue = [(''https://example.com'', 0, 1, JStr ''seed'')], visited = {}, nodes = [],
      knowledge = [], world = 0, trace = [], failure = None\<rparr>
   = \<lparr>queue = (''https://example.com'', 0, 1, JStr ''seed'')
         # map (entry_of 0) (slice_to k [with_score 0.5 (JStr ''LLM unavailable'') link_a,
             with_score 0.5 (JStr ''LLM unavailable'') link_b,
             with_score 0.5 (JStr ''LLM unavailable'') link_c]),
      visited = {''https://example.com''},
      nodes = [make_node ''https://example.com/'' 0 1 (JStr ''seed'') page_root],
      knowledge = ''Read: Root.'', world = 3,
      trace = [EvFetch 0 ''https://example.com/'',
               EvScore ''https://example.com/'' [link_a, link_b, link_c],
               EvEnqueue ''https://example.com/''
                 (map (entry_of 0) (slice_to k [with_score 0.5 (JStr ''LLM unavailable'') link_a,
             with_score 0.5 (JStr ''LLM unavailable'') link_b,
             with_score 0.5 (JStr ''LLM unavailable'') link_c]))],
      failure = None\<rparr>"
  by (simp add: visit_def expand_def Let_def demo_canon demo_fetch_env demo_fetch_def
  demo_candidates demo_cap demo_scored demo_knowledge demo_titles demo_params_def)


lemma slice_two: "k = 2 \<or> k = - 1 \<Longrightarrow> slice_to k [a, b, c] = [a, b]"
  by (auto simp: slice_to_def)

lemmas demo_visit = visit_def expand_def Let_def demo_canon demo_fetch_env demo_fetch_def
  demo_candidates demo_cap demo_scored demo_knowledge demo_titles demo_params_def

lemma demo_run:
  assumes "k = 2 \<or> k = - 1"
  shows "track_run demo_env (demo_params k) demo_seeds 0 = demo_final"
  unfolding track_run_def initial_crawl_def demo_seeds_def
  apply (subst track_loop.simps)
  apply (simp add: Let_def demo_step1 slice_two[OF assms] entry_of_with_score demo_urls)
  apply (subst track_loop.simps)
  apply (simp add: demo_visit)
  apply (subst track_loop.simps)
  apply (simp add: demo_visit)
  apply (subst track_loop.simps)
  apply (simp add: demo_visit)
  apply (subst track_loop.simps)
  apply (simp add: demo_final_def insert_commute)
  done

text \<open>
  C3. The claim read against the code fails: the code takes the links first and the
  refs after them, and compares the URLs as they are written. For the page below the
  code keeps the link and the ref, the link first; the list as claimed holds the ref
  alone.
\<close>

theorem get_candidates_not_as_claimed:
  "slice_to 20 (get_candidates page_with_slash_twin)
     = [\<lparr>url = ''https://github.com/o/r/issues/5/'', anchor = ''Issue 5'',
          ctx = ''Issue 5 on GitHub''\<rparr>,
        \<lparr>url = ''https://github.com/o/r/issues/5'', anchor = ''issue'',
          ctx = ''see https://github.com/o/r/issues/5 for more''\<rparr>]
   \<and> candidates_as_claimed page_with_slash_twin
     = [\<lparr>url = ''https://github.com/o/r/issues/5'', anchor = ''issue'',
          ctx = ''see https://github.com/o/r/issues/5 for more''\<rparr>]"
  by (simp add: slice_to_def get_candidates_def candidates_as_claimed_def page_with_slash_twin_def
      ref_candidate_def canon_url_def rstrip_chars_def)

lemma find_append_cases:
  "find Q (xs @ ys) = (case find Q xs of None \<Rightarrow> find Q ys | Some x \<Rightarrow> Some x)"
  by (induction xs) auto

text \<open>
  C3, amended. The candidate list is the links that were kept followed by the refs
  that were kept, each in the order of the document; no URL occurs twice in it and
  none is empty; each candidate is the first entry of links-then-refs with its URL
  string; every URL of the document that is not empty occurs; and the orchestrator
  passes on the first 20 of them.
\<close>

theorem get_candidates_links_then_refs:
  "\<exists>ls rs. get_candidates d = ls @ rs
      \<and> subseq ls (doc_links d) \<and> subseq rs (map ref_candidate (doc_refs d))
      \<and> distinct (map url (ls @ rs))
      \<and> (\<forall>c \<in> set (ls @ rs). url c \<noteq> []
             \<and> find (\<lambda>x. url x = url c) (doc_links d @ map ref_candidate (doc_refs d)) = Some c)
      \<and> url ` set (ls @ rs) = url ` set (doc_links d @ map ref_candidate (doc_refs d)) - {[]}
      \<and> slice_to 20 (get_candidates d) = take 20 (ls @ rs)"
proof -
  let ?links = "doc_links d" and ?refs = "map ref_candidate (doc_refs d)"
  from collect_collected[of ?links "[]" "{}"] obtain ls where
    ls: "collect ?links ([], {}) = (ls, url ` set ls)" "collected ?links {} ls"
    by auto
  from collect_collected[of ?refs ls "url ` set ls"] obtain rs where
    rs: "collect ?refs (ls, url ` set ls) = (ls @ rs, url ` set ls \<union> url ` set rs)"
      "collected ?refs (url ` set ls) rs"
    by blast
  have g: "get_candidates d = ls @ rs" by (simp add: get_candidates_def ls(1) rs(1))
  have s1: "subseq ls ?links" and s2: "subseq rs ?refs"
    using ls(2) rs(2) by (auto simp: collected_def)
  have dl: "distinct (map url ls)" and dr: "distinct (map url rs)"
    using ls(2) rs(2) by (auto simp: collected_def)
  have "\<forall>y \<in> set rs. url y \<notin> url ` set ls"
    using rs(2) by (simp add: collected_def)
  then have disj: "url ` set ls \<inter> url ` set rs = {}"
  proof -
    assume h: "\<forall>y \<in> set rs. url y \<notin> url ` set ls"
    show ?thesis
    proof (rule ccontr)
      assume "url ` set ls \<inter> url ` set rs \<noteq> {}"
      then obtain v where "v \<in> url ` set ls" "v \<in> url ` set rs" by auto
      then obtain y where "y \<in> set rs" "v = url y" by auto
      then show False using h \<open>v \<in> url ` set ls\<close> by simp
    qed
  qed
  have dist: "distinct (map url (ls @ rs))" using dl dr disj by simp
  have covl: "\<forall>x \<in> set ?links. url x \<noteq> [] \<longrightarrow> url x \<in> url ` set ls"
    using ls(2) by (auto simp: collected_def)
  have covr: "\<forall>x \<in> set ?refs. url x \<noteq> [] \<longrightarrow> url x \<in> url ` set ls \<union> url ` set rs"
    using rs(2) by (auto simp: collected_def)
  have first: "\<forall>c \<in> set (ls @ rs). url c \<noteq> []
      \<and> find (\<lambda>x. url x = url c) (?links @ ?refs) = Some c"
  proof
    fix c assume "c \<in> set (ls @ rs)"
    then consider "c \<in> set ls" | "c \<in> set rs" by auto
    then show "url c \<noteq> [] \<and> find (\<lambda>x. url x = url c) (?links @ ?refs) = Some c"
    proof cases
      case 1
      then have "url c \<noteq> []" "find (\<lambda>x. url x = url c) ?links = Some c"
        using ls(2) by (auto simp: collected_def)
      then show ?thesis by (simp add: find_append_cases)
    next
      case 2
      then have c: "url c \<noteq> []" "url c \<notin> url ` set ls"
        "find (\<lambda>x. url x = url c) ?refs = Some c"
        using rs(2) by (auto simp: collected_def)
      have "\<forall>x \<in> set ?links. url x \<noteq> url c" using covl c(1,2) by metis
      then have "find (\<lambda>x. url x = url c) ?links = None" by (simp add: find_None_iff)
      then show ?thesis using c by (simp add: find_append_cases)
    qed
  qed
  have sub: "set ls \<subseteq> set ?links" "set rs \<subseteq> set ?refs"
    using s1 s2 by (auto dest: list_emb_set)
  have cover: "url ` set (ls @ rs) = url ` set (?links @ ?refs) - {[]}"
  proof
    show "url ` set (ls @ rs) \<subseteq> url ` set (?links @ ?refs) - {[]}"
      using sub first by auto
    show "url ` set (?links @ ?refs) - {[]} \<subseteq> url ` set (ls @ rs)"
      using covl covr by auto
  qed
  have cap: "slice_to 20 (get_candidates d) = take 20 (ls @ rs)"
    by (simp add: slice_to_def g)
  show ?thesis using g s1 s2 dist first cover cap by blast
qed

theorem get_candidates_links_then_refs_witness:
  "\<exists>ls rs. get_candidates page_with_slash_twin = ls @ rs
      \<and> subseq ls (doc_links page_with_slash_twin)
      \<and> subseq rs (map ref_candidate (doc_refs page_with_slash_twin))
      \<and> distinct (map url (ls @ rs))
      \<and> (\<forall>c \<in> set (ls @ rs). url c \<noteq> []
             \<and> find (\<lambda>x. url x = url c)
                  (doc_links page_with_slash_twin @ map ref_candidate (doc_refs page_with_slash_twin))
                = Some c)
      \<and> url ` set (ls @ rs)
          = url ` set (doc_links page_with_slash_twin
                        @ map ref_candidate (doc_refs page_with_slash_twin)) - {[]}
      \<and> slice_to 20 (get_candidates page_with_slash_twin) = take 20 (ls @ rs)"
  by (rule get_candidates_links_then_refs)

lemma fetch_attempts_append [simp]:
  "fetch_attempts (tr @ tr') = fetch_attempts tr @ fetch_attempts tr'"
  by (simp add: fetch_attempts_def)

lemma fetch_attempts_simps [simp]:
  "fetch_attempts [] = []"
  "fetch_attempts (EvFetch d u # tr) = u # fetch_attempts tr"
  "fetch_attempts (EvScore u cs # tr) = fetch_attempts tr"
  "fetch_attempts (EvEnqueue u es # tr) = fetch_attempts tr"
  by (simp_all add: fetch_attempts_def)

lemma fetch_inv_visit:
  assumes "fetch_inv s"
  shows "fetch_inv (visit E P e (s\<lparr>queue := rest\<rparr>))"
proof -
  obtain u depth sc rs where e: "e = (u, depth, sc, rs)" by (cases e) auto
  have base: "fetch_inv (s\<lparr>queue := rest\<rparr>)" using assms by (simp add: fetch_inv_def)
  show ?thesis
    unfolding e
    by (cases rule: visit_cases[where u = u and s = "s\<lparr>queue := rest\<rparr>" and depth = depth and P = P
          and E = E and sc = sc and rs = rs])
       (use base in \<open>auto simp: fetch_inv_def\<close>)
qed

lemma fetch_inv_initial: "fetch_inv (initial_crawl seed_urls w)"
  by (simp add: fetch_inv_def initial_crawl_def)

text \<open>
  C6. In every run of \<open>track\<close>, whatever the fetcher and the reasoning service do and
  also when an exception ends the run, the URLs handed to \<^verbatim>\<open>fetch_thread_url\<close> are
  pairwise different in canonical form.
\<close>

theorem track_fetches_once:
  "distinct (map canon_url (fetch_attempts (trace (track_run E P seed_urls w))))"
proof -
  have "fetch_inv (track_run E P seed_urls w)"
    unfolding track_run_def
    by (rule track_loop_invariant[where I = fetch_inv, OF fetch_inv_initial fetch_inv_visit])
  then show ?thesis by (simp add: fetch_inv_def)
qed

theorem track_fetches_once_witness:
  "fetch_attempts (trace (track_run demo_env (demo_params 2) demo_seeds 0))
     = [''https://example.com/'', ''https://example.com/a'', ''https://example.com/b'']
   \<and> distinct (map canon_url
         (fetch_attempts (trace (track_run demo_env (demo_params 2) demo_seeds 0))))"
proof -
  have run: "track_run demo_env (demo_params 2) demo_seeds 0 = demo_final"
    by (rule demo_run) simp
  have "fetch_attempts (trace (track_run demo_env (demo_params 2) demo_seeds 0))
     = [''https://example.com/'', ''https://example.com/a'', ''https://example.com/b'']"
    by (simp add: run demo_final_def)
  then show ?thesis
    using track_fetches_once[of demo_env "demo_params 2" demo_seeds 0] by blast
qed

lemma bound_inv_visit:
  assumes "bound_inv P s"
  shows "bound_inv P (visit E P e (s\<lparr>queue := rest\<rparr>))"
proof -
  obtain u depth sc rs where e: "e = (u, depth, sc, rs)" by (cases e) auto
  have base: "bound_inv P (s\<lparr>queue := rest\<rparr>)" using assms by (simp add: bound_inv_def)
  have c20: "\<And>xs :: candidate list. length (slice_to 20 xs) \<le> 20" by (simp add: slice_to_def)
  show ?thesis
    unfolding e
    by (cases rule: visit_cases[where u = u and s = "s\<lparr>queue := rest\<rparr>" and depth = depth and P = P
          and E = E and sc = sc and rs = rs])
       (use base c20 length_slice_to_nonneg in \<open>auto simp: bound_inv_def\<close>)
qed

lemma bound_inv_initial: "bound_inv P (initial_crawl seed_urls w)"
  by (simp add: bound_inv_def initial_crawl_def)

text \<open>
  C7. The claim fails for a negative \<open>max_per_level\<close>: the slice
  \<^verbatim>\<open>scored[:max_per_level]\<close> then drops that many items from the end, and with
  \<open>max_per_level = -1\<close> two of three scored candidates are enqueued.
\<close>

theorem track_enqueues_more_than_negative_level:
  "EvEnqueue ''https://example.com/''
       [(''https://example.com/a'', 1, 0.5, JStr ''LLM unavailable''),
        (''https://example.com/b'', 1, 0.5, JStr ''LLM unavailable'')]
     \<in> set (trace (track_run demo_env (demo_params (- 1)) demo_seeds 0))
   \<and> \<not> int (length [(''https://example.com/a'', 1 :: int, 0.5 :: real, JStr ''LLM unavailable''),
                      (''https://example.com/b'', 1, 0.5, JStr ''LLM unavailable'')])
         \<le> max_per_level (demo_params (- 1))"
proof -
  have run: "track_run demo_env (demo_params (- 1)) demo_seeds 0 = demo_final"
    by (rule demo_run) simp
  have mem: "EvEnqueue ''https://example.com/''
       [(''https://example.com/a'', 1, 0.5, JStr ''LLM unavailable''),
        (''https://example.com/b'', 1, 0.5, JStr ''LLM unavailable'')]
     \<in> set (trace (track_run demo_env (demo_params (- 1)) demo_seeds 0))"
    by (simp add: run demo_final_def)
  have more: "\<not> int (length [(''https://example.com/a'', 1 :: int, 0.5 :: real, JStr ''LLM unavailable''),
                      (''https://example.com/b'', 1, 0.5, JStr ''LLM unavailable'')])
         \<le> max_per_level (demo_params (- 1))"
    by (simp add: demo_params_def)
  show ?thesis using mem more by (rule conjI)
qed

text \<open>
  C7, amended. In every run, every candidate list passed to \<open>score_candidates\<close> has at
  most 20 entries, and when \<open>max_per_level\<close> is not negative every batch of entries
  enqueued for one node has at most \<open>max_per_level\<close> entries.
\<close>

theorem track_bounds:
  "(\<forall>u cs. EvScore u cs \<in> set (trace (track_run E P seed_urls w)) \<longrightarrow> length cs \<le> 20)
   \<and> (0 \<le> max_per_level P \<longrightarrow>
        (\<forall>u es. EvEnqueue u es \<in> set (trace (track_run E P seed_urls w))
           \<longrightarrow> int (length es) \<le> max_per_level P))"
proof -
  have "bound_inv P (track_run E P seed_urls w)"
    unfolding track_run_def
    by (rule track_loop_invariant[where I = "bound_inv P", OF bound_inv_initial bound_inv_visit])
  then show ?thesis by (simp add: bound_inv_def)
qed

theorem track_bounds_witness:
  "EvScore ''https://example.com/'' [link_a, link_b, link_c]
     \<in> set (trace (track_run demo_env (demo_params 2) demo_seeds 0))
   \<and> length [link_a, link_b, link_c] \<le> 20
   \<and> EvEnqueue ''https://example.com/''
       [(''https://example.com/a'', 1, 0.5, JStr ''LLM unavailable''),
        (''https://example.com/b'', 1, 0.5, JStr ''LLM unavailable'')]
     \<in> set (trace (track_run demo_env (demo_params 2) demo_seeds 0))
   \<and> int (length [(''https://example.com/a'', 1 :: int, 0.5 :: real, JStr ''LLM unavailable''),
                    (''https://example.com/b'', 1, 0.5, JStr ''LLM unavailable'')])
         \<le> max_per_level (demo_params 2)"
proof -
  have run: "track_run demo_env (demo_params 2) demo_seeds 0 = demo_final"
    by (rule demo_run) simp
  have e1: "EvScore ''https://example.com/'' [link_a, link_b, link_c]
     \<in> set (trace (track_run demo_env (demo_params 2) demo_seeds 0))"
    by (simp add: run demo_final_def)
  have e2: "EvEnqueue ''https://example.com/''
       [(''https://example.com/a'', 1, 0.5, JStr ''LLM unavailable''),
        (''https://example.com/b'', 1, 0.5, JStr ''LLM unavailable'')]
     \<in> set (trace (track_run demo_env (demo_params 2) demo_seeds 0))"
    by (simp add: run demo_final_def)
  have nn: "0 \<le> max_per_level (demo_params 2)" by (simp add: demo_params_def)
  from track_bounds[of demo_env "demo_params 2" demo_seeds 0] e1 e2 nn
  show ?thesis by blast
qed

lemma enqueued_by_mono:
  "enqueued_by tr p e \<Longrightarrow> set tr \<subseteq> set tr' \<Longrightarrow> enqueued_by tr' p e"
  by (auto simp: enqueued_by_def)

lemma entry_origin_mono:
  assumes "entry_origin seed_urls ns tr b e" and "set tr \<subseteq> set tr'" and "b \<le> b'"
    and "b \<le> length ns"
  shows "entry_origin seed_urls (ns @ ms) tr' b' e"
proof -
  from assms(1) consider "seed_entry seed_urls e" | j where "j < b" "enqueued_by tr (ns ! j) e"
    by (auto simp: entry_origin_def)
  then show ?thesis
  proof cases
    case 1
    then show ?thesis by (simp add: entry_origin_def)
  next
    case 2
    then have "j < b'" "enqueued_by tr' ((ns @ ms) ! j) e"
      using assms(2,3,4) enqueued_by_mono by (auto simp: nth_append)
    then show ?thesis unfolding entry_origin_def by blast
  qed
qed

lemma entry_origin_mono0:
  assumes "entry_origin seed_urls ns tr b e" and "set tr \<subseteq> set tr'" and "b \<le> b'"
  shows "entry_origin seed_urls ns tr' b' e"
  using assms unfolding entry_origin_def by (meson enqueued_by_mono less_le_trans)

lemma depth_inv_grow:
  assumes inv: "depth_inv seed_urls P s"
    and o: "entry_origin seed_urls (nodes s) (trace s) (length (nodes s)) (node_entry nd)"
    and d: "node_depth nd \<le> max_depth P"
    and tr: "set (trace s) \<subseteq> set tr'"
    and new: "\<forall>e \<in> set es. enqueued_by tr' nd e"
    and q: "set q' \<subseteq> set (queue s) \<union> set es"
  shows "depth_inv seed_urls P (s\<lparr>nodes := nodes s @ [nd], trace := tr', queue := q'\<rparr>)"
proof -
  let ?ns = "nodes s" and ?ns' = "nodes s @ [nd]"
  have n: "\<forall>i < length ?ns'. node_depth (?ns' ! i) \<le> max_depth P
      \<and> entry_origin seed_urls ?ns' tr' i (node_entry (?ns' ! i))"
  proof (intro allI impI)
    fix i assume i: "i < length ?ns'"
    show "node_depth (?ns' ! i) \<le> max_depth P
      \<and> entry_origin seed_urls ?ns' tr' i (node_entry (?ns' ! i))"
    proof (cases "i < length ?ns")
      case True
      then have "node_depth (?ns ! i) \<le> max_depth P"
        "entry_origin seed_urls ?ns (trace s) i (node_entry (?ns ! i))"
        using inv by (auto simp: depth_inv_def)
      then show ?thesis
        using True entry_origin_mono[where ms = "[nd]" and b' = i, OF _ tr] by (simp add: nth_append)
    next
      case False
      then have "i = length ?ns" using i by simp
      then show ?thesis
        using d entry_origin_mono[where ms = "[nd]", OF o tr] by simp
    qed
  qed
  have e: "\<forall>e \<in> set q'. entry_origin seed_urls ?ns' tr' (length ?ns') e"
  proof
    fix e assume "e \<in> set q'"
    then consider "e \<in> set (queue s)" | "e \<in> set es" using q by auto
    then show "entry_origin seed_urls ?ns' tr' (length ?ns') e"
    proof cases
      case 1
      then have "entry_origin seed_urls ?ns (trace s) (length ?ns) e"
        using inv by (simp add: depth_inv_def)
      then show ?thesis using entry_origin_mono[where ms = "[nd]", OF _ tr] by simp
    next
      case 2
      then have "enqueued_by tr' (?ns' ! length ?ns) e" using new by simp
      then show ?thesis unfolding entry_origin_def by (metis length_append_singleton lessI)
    qed
  qed
  show ?thesis using n e by (simp add: depth_inv_def)
qed

lemma depth_inv_same_nodes:
  assumes inv: "depth_inv seed_urls P s" and tr: "set (trace s) \<subseteq> set tr'"
    and q: "set q' \<subseteq> set (queue s)"
  shows "depth_inv seed_urls P (s\<lparr>trace := tr', queue := q'\<rparr>)"
proof -
  have n: "\<forall>i < length (nodes s). node_depth (nodes s ! i) \<le> max_depth P
      \<and> entry_origin seed_urls (nodes s) tr' i (node_entry (nodes s ! i))"
    using inv entry_origin_mono0[OF _ tr order_refl] by (auto simp: depth_inv_def)
  have e: "\<forall>e \<in> set q'. entry_origin seed_urls (nodes s) tr' (length (nodes s)) e"
    using inv q entry_origin_mono0[OF _ tr order_refl] by (auto simp: depth_inv_def)
  show ?thesis using n e by (simp add: depth_inv_def)
qed

lemma node_entry_make_node [simp]:
  "node_entry (make_node u depth sc rs data) = (u, depth, sc, rs)"
  "node_depth (make_node u depth sc rs data) = depth"
  "node_url (make_node u depth sc rs data) = u"
  by (simp_all add: node_entry_def make_node_def)

lemma depth_inv_visit:
  assumes inv: "depth_inv seed_urls P s" and q: "queue s = e # rest"
  shows "depth_inv seed_urls P (visit E P e (s\<lparr>queue := rest\<rparr>))"
proof -
  obtain u depth sc rs where e: "e = (u, depth, sc, rs)" by (cases e) auto
  let ?s = "s\<lparr>queue := rest\<rparr>"
  have o: "entry_origin seed_urls (nodes s) (trace s) (length (nodes s)) (u, depth, sc, rs)"
    using inv q e by (simp add: depth_inv_def)
  have sub: "set rest \<subseteq> set (queue s)" using q by auto
  show ?thesis
  proof (cases rule: visit_cases[where u = u and s = ?s and depth = depth and P = P
          and E = E and sc = sc and rs = rs])
    case skip
    then show ?thesis using depth_inv_same_nodes[OF inv order_refl sub] by (simp add: e)
  next
    case (fetch_failed wf)
    have "depth_inv seed_urls P (s\<lparr>trace := trace s @ [EvFetch depth u], queue := rest\<rparr>)"
      by (rule depth_inv_same_nodes[OF inv _ sub]) auto
    then show ?thesis using fetch_failed by (simp add: depth_inv_def e)
  next
    case (leaf data ks wk)
    have "depth_inv seed_urls P (s\<lparr>nodes := nodes s @ [make_node u depth sc rs data],
        trace := trace s @ [EvFetch depth u], queue := rest\<rparr>)"
      by (rule depth_inv_grow[where es = "[]", OF inv]) (use o leaf sub in auto)
    then show ?thesis using leaf by (simp add: depth_inv_def e)
  next
    case (scoring_raised data ks ws err)
    have "depth_inv seed_urls P (s\<lparr>nodes := nodes s @ [make_node u depth sc rs data],
        trace := trace s @ [EvFetch depth u, EvScore u (slice_to 20 (get_candidates data))],
        queue := rest\<rparr>)"
      by (rule depth_inv_grow[where es = "[]", OF inv]) (use o scoring_raised sub in auto)
    then show ?thesis using scoring_raised by (simp add: depth_inv_def e)
  next
    case (expanded data ks wk ws scored)
    let ?es = "map (entry_of depth) (slice_to (max_per_level P) scored)"
    let ?tr = "trace s @ [EvFetch depth u, EvScore u (slice_to 20 (get_candidates data)),
        EvEnqueue u ?es]"
    have new: "\<forall>x \<in> set ?es. enqueued_by ?tr (make_node u depth sc rs data) x"
      by (auto simp: enqueued_by_def entry_of_def)
    have "depth_inv seed_urls P (s\<lparr>nodes := nodes s @ [make_node u depth sc rs data],
        trace := ?tr, queue := rest @ ?es\<rparr>)"
      by (rule depth_inv_grow[where es = ?es, OF inv _ _ _ new]) (use o expanded sub in auto)
    then show ?thesis using expanded by (simp add: depth_inv_def e)
  qed
qed

lemma depth_inv_initial: "depth_inv seed_urls P (initial_crawl seed_urls w)"
  by (auto simp: depth_inv_def initial_crawl_def entry_origin_def seed_entry_def)

text \<open>
  C5. In every run, a node is never deeper than \<open>max_depth\<close>, and it is made either from
  the entry of a seed, with depth 0, or from an entry that the expansion of an earlier
  node (its parent) appended, and then its depth is the parent's depth plus 1, the
  depth that entry carried.
\<close>

theorem track_depths:
  "\<forall>i < length (nodes (track_run E P seed_urls w)).
     node_depth (nodes (track_run E P seed_urls w) ! i) \<le> max_depth P
     \<and> ((seed_entry seed_urls (node_entry (nodes (track_run E P seed_urls w) ! i))
           \<and> node_depth (nodes (track_run E P seed_urls w) ! i) = 0)
        \<or> (\<exists>j < i.
              enqueued_by (trace (track_run E P seed_urls w))
                (nodes (track_run E P seed_urls w) ! j)
                (node_entry (nodes (track_run E P seed_urls w) ! i))
              \<and> node_depth (nodes (track_run E P seed_urls w) ! i)
                  = node_depth (nodes (track_run E P seed_urls w) ! j) + 1))"
proof -
  let ?s = "track_run E P seed_urls w"
  have inv: "depth_inv seed_urls P ?s"
    unfolding track_run_def
    by (rule track_loop_invariant[where I = "depth_inv seed_urls P", OF depth_inv_initial depth_inv_visit])
  show ?thesis
  proof (intro allI impI)
    fix i assume i: "i < length (nodes ?s)"
    let ?n = "nodes ?s ! i"
    have d: "node_depth ?n \<le> max_depth P"
      and o: "entry_origin seed_urls (nodes ?s) (trace ?s) i (node_entry ?n)"
      using inv i by (auto simp: depth_inv_def)
    from o consider (seed) "seed_entry seed_urls (node_entry ?n)"
      | (child) j where "j < i" "enqueued_by (trace ?s) (nodes ?s ! j) (node_entry ?n)"
      by (auto simp: entry_origin_def)
    then have "(seed_entry seed_urls (node_entry ?n) \<and> node_depth ?n = 0)
        \<or> (\<exists>j < i. enqueued_by (trace ?s) (nodes ?s ! j) (node_entry ?n)
              \<and> node_depth ?n = node_depth (nodes ?s ! j) + 1)"
    proof cases
      case seed
      then show ?thesis by (auto simp: seed_entry_def node_entry_def)
    next
      case child
      then show ?thesis by (auto simp: enqueued_by_def node_entry_def)
    qed
    then show "node_depth ?n \<le> max_depth P
     \<and> ((seed_entry seed_urls (node_entry ?n) \<and> node_depth ?n = 0)
        \<or> (\<exists>j < i. enqueued_by (trace ?s) (nodes ?s ! j) (node_entry ?n)
              \<and> node_depth ?n = node_depth (nodes ?s ! j) + 1))"
      using d by blast
  qed
qed

theorem track_depths_witness:
  "nodes (track_run demo_env (demo_params 2) demo_seeds 0)
     = [make_node ''https://example.com/'' 0 1 (JStr ''seed'') page_root,
        make_node ''https://example.com/a'' 1 0.5 (JStr ''LLM unavailable'') page_a]
   \<and> node_depth (nodes (track_run demo_env (demo_params 2) demo_seeds 0) ! 1)
        \<le> max_depth (demo_params 2)
   \<and> ((seed_entry demo_seeds (node_entry (nodes (track_run demo_env (demo_params 2) demo_seeds 0) ! 1))
         \<and> node_depth (nodes (track_run demo_env (demo_params 2) demo_seeds 0) ! 1) = 0)
      \<or> (\<exists>j < 1.
            enqueued_by (trace (track_run demo_env (demo_params 2) demo_seeds 0))
              (nodes (track_run demo_env (demo_params 2) demo_seeds 0) ! j)
              (node_entry (nodes (track_run demo_env (demo_params 2) demo_seeds 0) ! 1))
            \<and> node_depth (nodes (track_run demo_env (demo_params 2) demo_seeds 0) ! 1)
                = node_depth (nodes (track_run demo_env (demo_params 2) demo_seeds 0) ! j) + 1))"
proof -
  have run: "track_run demo_env (demo_params 2) demo_seeds 0 = demo_final"
    by (rule demo_run) simp
  have n: "nodes (track_run demo_env (demo_params 2) demo_seeds 0)
     = [make_node ''https://example.com/'' 0 1 (JStr ''seed'') page_root,
        make_node ''https://example.com/a'' 1 0.5 (JStr ''LLM unavailable'') page_a]"
    by (simp add: run demo_final_def)
  have len: "1 < length (nodes (track_run demo_env (demo_params 2) demo_seeds 0))"
    by (simp add: n)
  from track_depths[rule_format, OF len] n show ?thesis by blast
qed

section \<open>Reference extraction and the fetchers: properties\<close>

text \<open>
  C4. On the text of the specification's example, with the repository \<open>a/b\<close>,
  \<open>extract_refs\<close> returns two refs, both of type \<open>issue\<close>: the first expression
  (bare \<^verbatim>\<open>#123\<close>) matches \<^verbatim>\<open>#42\<close> and \<^verbatim>\<open>#7\<close> and registers both URLs; when the
  expressions for "duplicate of" and "see also" match later, their URLs are seen
  already and \<^verbatim>\<open>_add\<close> drops them. No ref of type \<open>related\<close> or \<open>duplicate\<close> is
  returned.
\<close>

theorem extract_refs_example_types:
  "extract_refs ''See also #42 and duplicate of #7'' ''a/b''
     = [\<lparr>ref_type = ''issue'', ref_url = ''https://github.com/a/b/issues/42'',
          ref_ctx = ''See also #42 and duplicate of #7''\<rparr>,
        \<lparr>ref_type = ''issue'', ref_url = ''https://github.com/a/b/issues/7'',
          ref_ctx = ''See also #42 and duplicate of #7''\<rparr>]"
  by code_simp

text \<open>
  The two later expressions do give their types where the first one does not match,
  as when a letter follows the number.
\<close>

lemma extract_refs_unshadowed:
  "extract_refs ''See also #42x and duplicate of #7x'' ''a/b''
     = [\<lparr>ref_type = ''duplicate'', ref_url = ''https://github.com/a/b/issues/7'',
          ref_ctx = ''See also #42x and duplicate of #7x''\<rparr>,
        \<lparr>ref_type = ''related'', ref_url = ''https://github.com/a/b/issues/42'',
          ref_ctx = ''See also #42x and duplicate of #7x''\<rparr>]"
  by code_simp

text \<open>The refs of the page used for the candidate list are those of its body.\<close>

lemma page_with_slash_twin_refs:
  "extract_refs (doc_body page_with_slash_twin) [] = doc_refs page_with_slash_twin"
  unfolding page_with_slash_twin_def by code_simp

text \<open>
  C1. \<^verbatim>\<open>fetch_github_issue\<close> raises when the issue request is answered with a status
  below 400 and a body that is not a JSON object: \<^verbatim>\<open>r["json"]\<close> is \<^verbatim>\<open>None\<close> and
  \<^verbatim>\<open>issue.get\<close> raises \<^verbatim>\<open>AttributeError\<close> outside every \<^verbatim>\<open>try\<close>.
\<close>

theorem fetch_github_issue_raises:
  "fetch_github_issue_head html_wall (\<lambda>e. ''error'') ''o'' ''r'' 1 None (0::nat)
     = (Raised AttributeError, 1)"
  by (simp add: fetch_github_issue_head_def html_wall_def Let_def)

end
